theory Spec2Isabelle
  imports Complex_Main
begin

section \<open>float64 values as numpy computes with them\<close>

text \<open>
  The notebooks compute on pandas columns of dtype float64. A float64 is a finite number
  (with two zeros, \<open>Fin 0\<close> for \<open>0.0\<close> and \<open>NZero\<close> for \<open>-0.0\<close>), one of the two
  infinities, or NaN. numpy arithmetic never raises on these: it returns the IEEE 754
  result, rounded to the nearest float64 with ties to the even significand, an infinity
  on overflow, a zero on underflow, NaN for an invalid operation (and prints a warning).
\<close>

datatype npfloat = Fin real | NZero | PInf | NInf | NaN

text \<open>The nearest integer, ties to even.\<close>

definition rint :: "real \<Rightarrow> int" where
  "rint q =
     (let f = \<lfloor>q\<rfloor>; d = q - of_int f
      in if d < 1 / 2 then f else if 1 / 2 < d then f + 1 else if even f then f else f + 1)"

text \<open>
  The binary exponent of a number that is not zero; below the smallest normal number
  \<open>2\<^sup>-\<^sup>1\<^sup>0\<^sup>2\<^sup>2\<close> it stays at \<open>-1022\<close> (the subnormal numbers).
\<close>

definition expo :: "real \<Rightarrow> int" where
  "expo x = max \<lfloor>log 2 \<bar>x\<bar>\<rfloor> (- 1022)"

text \<open>Rounding to 53 significant bits at the exponent \<open>k\<close>.\<close>

definition rnd_at :: "int \<Rightarrow> real \<Rightarrow> real" where
  "rnd_at k x = of_int (rint (x / 2 powi (k - 52))) * 2 powi (k - 52)"

text \<open>
  The float64 nearest to a real number: an infinity when the rounded magnitude reaches
  \<open>2\<^sup>1\<^sup>0\<^sup>2\<^sup>4\<close>, a zero with the sign of the number when it rounds to zero.
\<close>

definition round64 :: "real \<Rightarrow> npfloat" where
  "round64 x =
     (if x = 0 then Fin 0
      else let y = rnd_at (expo x) x
           in if 2 ^ 1024 \<le> \<bar>y\<bar> then (if 0 < x then PInf else NInf)
              else if y = 0 then (if x < 0 then NZero else Fin 0)
              else Fin y)"

text \<open>A decimal numeral of the source, or of the data file, as the float64 it is read as.\<close>

definition lit :: "real \<Rightarrow> npfloat" where
  "lit x = round64 x"

text \<open>\<open>np.pi\<close>, the float64 nearest to pi: \<open>0x1.921fb54442d18p+1\<close>.\<close>

definition np_pi :: npfloat where
  "np_pi = Fin (884279719003555 / 2 ^ 48)"

fun sign_bit :: "npfloat \<Rightarrow> bool" where
  "sign_bit (Fin a) = (a < 0)"
| "sign_bit NZero = True"
| "sign_bit PInf = False"
| "sign_bit NInf = True"
| "sign_bit NaN = False"

fun is_inf :: "npfloat \<Rightarrow> bool" where
  "is_inf PInf = True"
| "is_inf NInf = True"
| "is_inf _ = False"

fun is_zero :: "npfloat \<Rightarrow> bool" where
  "is_zero (Fin a) = (a = 0)"
| "is_zero NZero = True"
| "is_zero _ = False"

text \<open>The number a finite float64 stands for (both zeros stand for 0).\<close>

fun fval :: "npfloat \<Rightarrow> real" where
  "fval (Fin a) = a"
| "fval _ = 0"

definition signed_zero :: "bool \<Rightarrow> npfloat" where
  "signed_zero s = (if s then NZero else Fin 0)"

definition signed_inf :: "bool \<Rightarrow> npfloat" where
  "signed_inf s = (if s then NInf else PInf)"

text \<open>
  The rounded result of an operation whose exact result is \<open>x\<close> and whose sign is
  \<open>s\<close>: an exact zero takes the sign of the operation.
\<close>

definition round_to :: "bool \<Rightarrow> real \<Rightarrow> npfloat" where
  "round_to s x = (if x = 0 then signed_zero s else round64 x)"

text \<open>\<open>a * b\<close>: zero times infinity is NaN; the sign is the product of the signs.\<close>

definition fmul :: "npfloat \<Rightarrow> npfloat \<Rightarrow> npfloat" where
  "fmul a b =
     (if a = NaN \<or> b = NaN then NaN
      else if is_inf a \<or> is_inf b
        then (if is_zero a \<or> is_zero b then NaN else signed_inf (sign_bit a \<noteq> sign_bit b))
      else round_to (sign_bit a \<noteq> sign_bit b) (fval a * fval b))"

text \<open>
  \<open>a / b\<close>: a number that is not zero over a zero is an infinity, zero over zero and
  infinity over infinity are NaN, a finite number over an infinity is a zero; the sign
  is the quotient of the signs.
\<close>

definition fdiv :: "npfloat \<Rightarrow> npfloat \<Rightarrow> npfloat" where
  "fdiv a b =
     (if a = NaN \<or> b = NaN then NaN
      else if is_inf a
        then (if is_inf b then NaN else signed_inf (sign_bit a \<noteq> sign_bit b))
      else if is_inf b then signed_zero (sign_bit a \<noteq> sign_bit b)
      else if is_zero b
        then (if is_zero a then NaN else signed_inf (sign_bit a \<noteq> sign_bit b))
      else round_to (sign_bit a \<noteq> sign_bit b) (fval a / fval b))"

text \<open>\<open>x ** 2\<close> on an array is numpy's \<open>square\<close>, that is \<open>x * x\<close>.\<close>

definition fpow2 :: "npfloat \<Rightarrow> npfloat" where
  "fpow2 x = fmul x x"

text \<open>
  \<open>x ** 0.5\<close> on an array is numpy's \<open>sqrt\<close>: NaN on a negative number and on
  minus infinity, \<open>-0.0\<close> on \<open>-0.0\<close>.
\<close>

fun fsqrt :: "npfloat \<Rightarrow> npfloat" where
  "fsqrt (Fin a) = (if a < 0 then NaN else round64 (sqrt a))"
| "fsqrt NZero = NZero"
| "fsqrt PInf = PInf"
| "fsqrt NInf = NaN"
| "fsqrt NaN = NaN"

text \<open>Comparisons: every comparison with NaN is false, and the two zeros are equal.\<close>

fun fless :: "npfloat \<Rightarrow> npfloat \<Rightarrow> bool" where
  "fless NaN _ = False"
| "fless _ NaN = False"
| "fless PInf _ = False"
| "fless _ NInf = False"
| "fless NInf _ = True"
| "fless _ PInf = True"
| "fless a b = (fval a < fval b)"

fun fge :: "npfloat \<Rightarrow> npfloat \<Rightarrow> bool" where
  "fge NaN _ = False"
| "fge _ NaN = False"
| "fge a b = (\<not> fless a b)"

section \<open>The Iribarren number (CycloneYasi.ipynb, \<open>iribarrenNb\<close>)\<close>

text \<open>
  \<^verbatim>\<open>
  def iribarrenNb(Tp,Hs,beta):
      Lp = 9.81 * (Tp ** 2) / (2 * np.pi)
      zeta = beta / (Hs / Lp)**(0.5)
      return zeta
  \<close>
  The function is called once, on three columns of the data frame, and numpy applies
  every operation element by element. \<open>Lp\<close> is the first line on one element,
  \<open>iribarrenNb\<close> the whole body on one element, \<open>iribarrenNb_series\<close> the call
  on columns.
\<close>

definition Lp :: "npfloat \<Rightarrow> npfloat" where
  "Lp Tp = fdiv (fmul (lit 9.81) (fpow2 Tp)) (fmul (Fin 2) np_pi)"

definition iribarrenNb :: "npfloat \<Rightarrow> npfloat \<Rightarrow> npfloat \<Rightarrow> npfloat" where
  "iribarrenNb Tp Hs beta =
     (let lp = Lp Tp;
          zeta = fdiv beta (fsqrt (fdiv Hs lp))
      in zeta)"

type_synonym series = "npfloat list"

definition iribarrenNb_series :: "series \<Rightarrow> series \<Rightarrow> series \<Rightarrow> series" where
  "iribarrenNb_series Tp Hs beta =
     map (\<lambda>(t, h, b). iribarrenNb t h b) (zip Tp (zip Hs beta))"

text \<open>
  Bounds relative to a positive reference value, for following the rounding errors:
  \<open>x\<close> lies between \<open>lo * X\<close> and \<open>hi * X\<close>.
\<close>

definition rel_bounds :: "real \<Rightarrow> real \<Rightarrow> real \<Rightarrow> real \<Rightarrow> bool" where
  "rel_bounds lo hi X x = (lo * X \<le> x \<and> x \<le> hi * X)"

section \<open>The data frame of the run-up dataset (CycloneYasi.ipynb)\<close>

text \<open>
  \<^verbatim>\<open>
  names = ["dataset", "beach", "case", "lab_field", "hs", "tp", "beta", "d50",
           "roughness", "r2"]
  df = pd.read_csv('../../dataset/power18.csv', encoding="utf8", names=names, skiprows=1)
  \<close>
  A data frame is an ordered list of named columns. The identifier columns are carried
  as text (object dtype), the measurements are float64. Reading the file is outside the
  model: a frame is what \<open>read_csv\<close> returned. A column of the file in which some
  row holds a value that is not a number comes back as text in every row.
\<close>

datatype py_error = AttributeError | KeyError | TypeError | ValueError

datatype column = Opaque "string list" | Float64 series

type_synonym frame = "(string \<times> column) list"

definition names :: "string list" where
  "names = [''dataset'', ''beach'', ''case'', ''lab_field'', ''hs'', ''tp'', ''beta'',
            ''d50'', ''roughness'', ''r2'']"


text \<open>\<open>df.tp\<close>: attribute access to a column; a missing column raises.\<close>

definition getcol :: "frame \<Rightarrow> string \<Rightarrow> py_error + column" where
  "getcol df k = (case map_of df k of None \<Rightarrow> Inl AttributeError | Some c \<Rightarrow> Inr c)"

text \<open>
  A column as an operand of arithmetic or of a comparison with a number: text raises
  TypeError on its first element, a float64 column is its values.
\<close>

fun as_float :: "column \<Rightarrow> py_error + series" where
  "as_float (Float64 xs) = Inr xs"
| "as_float (Opaque xs) = (if xs = [] then Inr [] else Inl TypeError)"

text \<open>
  \<open>df[k] = v\<close>: an existing column is replaced where it stands, a new one is appended
  after the last column.
\<close>

fun setitem :: "frame \<Rightarrow> string \<Rightarrow> column \<Rightarrow> frame" where
  "setitem [] k v = [(k, v)]"
| "setitem ((k', c) # df) k v =
     (if k' = k then (k, v) # df else (k', c) # setitem df k v)"

text \<open>
  \<^verbatim>\<open>
  iribarren = iribarrenNb(Tp=df.tp, Hs=df.hs, beta=df.beta)
  df["iribarren"] = iribarren
  \<close>
  The three attribute accesses are evaluated before the call; the arithmetic inside the
  call meets \<open>Tp\<close> first, then \<open>Hs\<close>, then \<open>beta\<close>.
\<close>

definition append_iribarren :: "frame \<Rightarrow> py_error + frame" where
  "append_iribarren df =
     (case getcol df ''tp'' of Inl e \<Rightarrow> Inl e | Inr tp \<Rightarrow>
      case getcol df ''hs'' of Inl e \<Rightarrow> Inl e | Inr hs \<Rightarrow>
      case getcol df ''beta'' of Inl e \<Rightarrow> Inl e | Inr beta \<Rightarrow>
      case as_float tp of Inl e \<Rightarrow> Inl e | Inr Tp \<Rightarrow>
      case as_float hs of Inl e \<Rightarrow> Inl e | Inr Hs \<Rightarrow>
      case as_float beta of Inl e \<Rightarrow> Inl e | Inr b \<Rightarrow>
        Inr (setitem df ''iribarren'' (Float64 (iribarrenNb_series Tp Hs b))))"

section \<open>Beach types and the run-up ratio (CycloneYasi.ipynb, the two figures)\<close>

text \<open>
  \<^verbatim>\<open>
  ids1 = np.where(df.iribarren<0.5)[0]
  ids2 = np.where(np.logical_and(df.iribarren>=0.5,df.iribarren<1.5))[0]
  ids3 = np.where(df.iribarren>=1.5)[0]
  \<close>
  \<open>np.where(mask)[0]\<close> is the increasing list of the positions where the mask holds.
\<close>

definition where_true :: "bool list \<Rightarrow> nat list" where
  "where_true bs = filter (\<lambda>i. bs ! i) [0..<length bs]"

definition logical_and :: "bool list \<Rightarrow> bool list \<Rightarrow> bool list" where
  "logical_and xs ys = map (\<lambda>(a, b). a \<and> b) (zip xs ys)"

definition ids1 :: "series \<Rightarrow> nat list" where
  "ids1 ir = where_true (map (\<lambda>v. fless v (Fin 0.5)) ir)"

definition ids2 :: "series \<Rightarrow> nat list" where
  "ids2 ir =
     where_true (logical_and (map (\<lambda>v. fge v (Fin 0.5)) ir) (map (\<lambda>v. fless v (Fin 1.5)) ir))"

definition ids3 :: "series \<Rightarrow> nat list" where
  "ids3 ir = where_true (map (\<lambda>v. fge v (Fin 1.5)) ir)"

text \<open>
  The second figure plots the three index sets with the legend entries
  \<^verbatim>\<open>label='dissipative'\<close>, \<^verbatim>\<open>label='intermediate'\<close> and
  \<^verbatim>\<open>label='reflective'\<close>. \<open>beach_type ir i\<close> lists the labels under which
  row \<open>i\<close> is plotted.
\<close>

definition beach_groups :: "series \<Rightarrow> (string \<times> nat list) list" where
  "beach_groups ir =
     [(''dissipative'', ids1 ir), (''intermediate'', ids2 ir), (''reflective'', ids3 ir)]"

definition beach_type :: "series \<Rightarrow> nat \<Rightarrow> string list" where
  "beach_type ir i = map fst (filter (\<lambda>(l, ids). i \<in> set ids) (beach_groups ir))"

text \<open>
  \<open>s[ids]\<close>: the rows of a column at a list of labels (the frame has the default
  index, so labels are positions); a label outside the index raises KeyError.
\<close>

fun take_idx :: "'a list \<Rightarrow> nat list \<Rightarrow> py_error + 'a list" where
  "take_idx xs [] = Inr []"
| "take_idx xs (i # ids) =
     (if i < length xs
      then (case take_idx xs ids of Inl e \<Rightarrow> Inl e | Inr ys \<Rightarrow> Inr (xs ! i # ys))
      else Inl KeyError)"

fun column_take :: "column \<Rightarrow> nat list \<Rightarrow> py_error + column" where
  "column_take (Opaque xs) ids =
     (case take_idx xs ids of Inl e \<Rightarrow> Inl e | Inr ys \<Rightarrow> Inr (Opaque ys))"
| "column_take (Float64 xs) ids =
     (case take_idx xs ids of Inl e \<Rightarrow> Inl e | Inr ys \<Rightarrow> Inr (Float64 ys))"

text \<open>
  \<^verbatim>\<open>df.r2[ids]/df.hs[ids]\<close>, the ordinate of the first figure: both selections
  carry the same labels, so the division is element by element.
\<close>

definition runup_ratio :: "frame \<Rightarrow> nat list \<Rightarrow> py_error + series" where
  "runup_ratio df ids =
     (case getcol df ''r2'' of Inl e \<Rightarrow> Inl e | Inr r2 \<Rightarrow>
      case column_take r2 ids of Inl e \<Rightarrow> Inl e | Inr r2s \<Rightarrow>
      case getcol df ''hs'' of Inl e \<Rightarrow> Inl e | Inr hs \<Rightarrow>
      case column_take hs ids of Inl e \<Rightarrow> Inl e | Inr hss \<Rightarrow>
      case as_float r2s of Inl e \<Rightarrow> Inl e | Inr R \<Rightarrow>
      case as_float hss of Inl e \<Rightarrow> Inl e | Inr H \<Rightarrow>
        Inr (map (\<lambda>(r, h). fdiv r h) (zip R H)))"

section \<open>Correlation with the climate indices (WaveAnalysis.ipynb)\<close>

text \<open>
  \<^verbatim>\<open>
  monthly_wh_soi = scipy.stats.pearsonr(soi_df['anomaly'],wh_df['anomaly'][:len(soi_df)])
  \<close>
  and the same expression for \<open>aoi_df\<close> and \<open>sam_df\<close>, and for \<open>T_df\<close> in place of
  \<open>wh_df\<close>. Each frame has one row per month, with the columns \<open>year\<close>, \<open>month\<close>
  and \<open>anomaly\<close>.
\<close>

record monthly =
  year :: int
  month :: int
  anomaly :: npfloat

text \<open>
  \<open>scipy.stats.pearsonr(x, y)\<close> converts both arguments to arrays, raises ValueError
  when their lengths differ or are below 2, and computes its statistic from the samples
  paired by position. The statistic itself is the library's and stays a parameter.
\<close>

definition pearsonr ::
    "((npfloat \<times> npfloat) list \<Rightarrow> 'r) \<Rightarrow> series \<Rightarrow> series \<Rightarrow> py_error + 'r" where
  "pearsonr stat x y =
     (if length x \<noteq> length y then Inl ValueError
      else if length x < 2 then Inl ValueError
      else Inr (stat (zip x y)))"

definition wave_slice :: "monthly list \<Rightarrow> monthly list \<Rightarrow> series" where
  "wave_slice index_df wave_df = take (length index_df) (map anomaly wave_df)"

definition correlate ::
    "((npfloat \<times> npfloat) list \<Rightarrow> 'r) \<Rightarrow> monthly list \<Rightarrow> monthly list \<Rightarrow> py_error + 'r" where
  "correlate stat index_df wave_df =
     pearsonr stat (map anomaly index_df) (wave_slice index_df wave_df)"

text \<open>
  A frame with the ten columns of \<open>names\<close>, built from the four measurements the
  computations read; the other columns hold the values of the specification's end-to-end
  scenario in every row. \<open>lit\<close> is the float64 that a decimal numeral is read as.
\<close>

definition runup_frame :: "series \<Rightarrow> series \<Rightarrow> series \<Rightarrow> series \<Rightarrow> frame" where
  "runup_frame hs tp beta r2 =
     [(''dataset'', Opaque (replicate (length hs) ''A'')),
      (''beach'', Opaque (replicate (length hs) ''B1'')),
      (''case'', Opaque (replicate (length hs) ''1'')),
      (''lab_field'', Opaque (replicate (length hs) ''field'')),
      (''hs'', Float64 hs),
      (''tp'', Float64 tp),
      (''beta'', Float64 beta),
      (''d50'', Float64 (replicate (length hs) (lit 0.0003))),
      (''roughness'', Float64 (replicate (length hs) (Fin 1))),
      (''r2'', Float64 r2)]"

text \<open>
  The row of the specification's end-to-end scenario:
  \<open>hs = 2.0\<close>, \<open>tp = 8.0\<close>, \<open>beta = 0.05\<close>, \<open>r2 = 1.2\<close>.
\<close>

definition scenario :: frame where
  "scenario = runup_frame [lit 2.0] [lit 8.0] [lit 0.05] [lit 1.2]"

section \<open>Rounding to float64\<close>

lemma rint_cases: "rint q = \<lfloor>q\<rfloor> \<or> rint q = \<lfloor>q\<rfloor> + 1"
  by (simp add: rint_def Let_def)

lemma rint_err: "\<bar>of_int (rint q) - q\<bar> \<le> 1 / 2"
proof -
  have "of_int \<lfloor>q\<rfloor> \<le> q" "q < of_int \<lfloor>q\<rfloor> + 1" by linarith+
  then show ?thesis by (auto simp: rint_def Let_def abs_le_iff)
qed

lemma rint_of_int [simp]: "rint (of_int n) = n"
  by (simp add: rint_def)

lemma rint_ge: "of_int a \<le> q \<Longrightarrow> a \<le> rint q"
proof -
  assume "of_int a \<le> q"
  then have "a \<le> \<lfloor>q\<rfloor>" by (simp add: le_floor_iff)
  then show ?thesis using rint_cases[of q] by linarith
qed

lemma rint_le: "q \<le> of_int b \<Longrightarrow> rint q \<le> b"
proof (cases "q = of_int \<lfloor>q\<rfloor>")
  case True
  assume "q \<le> of_int b"
  with True have "\<lfloor>q\<rfloor> \<le> b" by linarith
  moreover from True have "rint q = \<lfloor>q\<rfloor>" by (metis rint_of_int)
  ultimately show ?thesis by simp
next
  case False
  assume "q \<le> of_int b"
  then have "\<lfloor>q\<rfloor> < b" using False by linarith
  then show ?thesis using rint_cases[of q] by auto
qed

lemma two_powr_int: "(2::real) powr (of_int k) = 2 powi k"
  by (simp add: powr_real_of_int')

lemma floor_log2_iff:
  fixes x :: real
  assumes "0 < x"
  shows "\<lfloor>log 2 x\<rfloor> = k \<longleftrightarrow> 2 powi k \<le> x \<and> x < 2 powi (k + 1)"
proof -
  have "\<lfloor>log 2 x\<rfloor> = k \<longleftrightarrow> 2 powr (of_int k) \<le> x \<and> x < 2 powr (of_int (k + 1))"
    using assms by (simp add: floor_log_eq_powr_iff)
  then show ?thesis by (simp only: two_powr_int)
qed

lemma expo_eq:
  assumes "2 powi k \<le> \<bar>x\<bar>" "\<bar>x\<bar> < 2 powi (k + 1)" "- 1022 \<le> k"
  shows "expo x = k"
proof -
  have "(0::real) < 2 powi k" by simp
  with assms(1) have pos: "0 < \<bar>x\<bar>" by linarith
  have "\<lfloor>log 2 \<bar>x\<bar>\<rfloor> = k"
    using assms(1,2) floor_log2_iff[OF pos] by blast
  then show ?thesis using assms(3) by (simp add: expo_def)
qed

lemma expo_subnormal:
  assumes "x \<noteq> 0" "\<bar>x\<bar> < 2 powi (- 1022)"
  shows "expo x = - 1022"
proof -
  have pos: "0 < \<bar>x\<bar>" using assms(1) by simp
  define k where "k = \<lfloor>log 2 \<bar>x\<bar>\<rfloor>"
  have "2 powi k \<le> \<bar>x\<bar>"
    using floor_log2_iff[OF pos, of k] by (simp add: k_def)
  with assms(2) have lt: "2 powi k < (2::real) powi (- 1022)" by linarith
  have "k < - 1022"
  proof (rule ccontr)
    assume "\<not> k < - 1022"
    then have "- 1022 \<le> k" by simp
    then have "(2::real) powi (- 1022) \<le> 2 powi k" by (intro power_int_increasing) simp_all
    with lt show False by linarith
  qed
  then show ?thesis by (simp add: expo_def k_def)
qed

lemma binade_exists:
  fixes x :: real
  assumes "x \<noteq> 0"
  shows "\<exists>k. 2 powi k \<le> \<bar>x\<bar> \<and> \<bar>x\<bar> < 2 powi (k + 1)"
proof -
  have pos: "0 < \<bar>x\<bar>" using assms by simp
  show ?thesis using floor_log2_iff[OF pos] by blast
qed

lemma two_powi_split: "(2::real) powi k = 2 ^ 52 * 2 powi (k - 52)"
proof -
  have "(2::real) powi (52 + (k - 52)) = 2 powi 52 * 2 powi (k - 52)"
    by (rule power_int_add) simp
  then show ?thesis by simp
qed

lemma two_powi_Suc: "(2::real) powi (k + 1) = 2 * 2 powi k"
proof -
  have "(2::real) powi (1 + k) = 2 powi 1 * 2 powi k"
    by (rule power_int_add) simp
  then show ?thesis by (simp add: add.commute)
qed

lemma two_powi_half: "(2::real) powi (k - 53) = 2 powi (k - 52) / 2"
  using two_powi_Suc[of "k - 53"] by simp

lemma rnd_at_pos:
  assumes "2 powi k \<le> x" "x < 2 powi (k + 1)"
  shows "2 ^ 52 \<le> rint (x / 2 powi (k - 52))" "rint (x / 2 powi (k - 52)) \<le> 2 ^ 53"
proof -
  let ?u = "(2::real) powi (k - 52)"
  have u: "0 < ?u" by simp
  have "2 ^ 52 * ?u \<le> x" using assms(1) two_powi_split[of k] by simp
  then have "2 ^ 52 \<le> x / ?u" using u by (simp add: pos_le_divide_eq)
  then have "of_int (2 ^ 52) \<le> x / ?u" by simp
  then show "2 ^ 52 \<le> rint (x / ?u)" by (rule rint_ge)
  have "x < 2 ^ 53 * ?u" using assms(2) two_powi_Suc[of k] two_powi_split[of k] by simp
  then have "x / ?u \<le> 2 ^ 53" using u by (simp add: pos_divide_le_eq)
  then have "x / ?u \<le> of_int (2 ^ 53)" by simp
  then show "rint (x / ?u) \<le> 2 ^ 53" by (rule rint_le)
qed

lemma rnd_at_neg:
  assumes "2 powi k \<le> - x" "- x < 2 powi (k + 1)"
  shows "rint (x / 2 powi (k - 52)) \<le> - (2 ^ 52)" "- (2 ^ 53) \<le> rint (x / 2 powi (k - 52))"
proof -
  let ?u = "(2::real) powi (k - 52)"
  have u: "0 < ?u" by simp
  have "2 ^ 52 * ?u \<le> - x" using assms(1) two_powi_split[of k] by simp
  then have "x \<le> - (2 ^ 52) * ?u" by simp
  then have "x / ?u \<le> - (2 ^ 52)" using u by (simp add: pos_divide_le_eq)
  then have "x / ?u \<le> of_int (- (2 ^ 52))" by simp
  then show "rint (x / ?u) \<le> - (2 ^ 52)" by (rule rint_le)
  have "- x < 2 ^ 53 * ?u" using assms(2) two_powi_Suc[of k] two_powi_split[of k] by simp
  then have "- (2 ^ 53) * ?u \<le> x" by simp
  then have "- (2 ^ 53) \<le> x / ?u" using u by (simp add: pos_le_divide_eq)
  then have "of_int (- (2 ^ 53)) \<le> x / ?u" by simp
  then show "- (2 ^ 53) \<le> rint (x / ?u)" by (rule rint_ge)
qed

lemma rnd_at_err: "\<bar>rnd_at k x - x\<bar> \<le> 2 powi (k - 53)"
proof -
  let ?u = "(2::real) powi (k - 52)"
  have u: "0 < ?u" by simp
  have "rnd_at k x - x = (of_int (rint (x / ?u)) - x / ?u) * ?u"
    using u by (simp add: rnd_at_def field_simps)
  then have "\<bar>rnd_at k x - x\<bar> = \<bar>of_int (rint (x / ?u)) - x / ?u\<bar> * ?u"
    using u by (simp add: abs_mult)
  also have "\<dots> \<le> 1 / 2 * ?u"
    using rint_err[of "x / ?u"] u by (intro mult_right_mono) simp_all
  finally show ?thesis by (simp add: two_powi_half)
qed

lemma two_powi_53: "(2::real) powi (k - 53) = 2 powi k / 2 ^ 53"
proof -
  have "(2::real) powi (53 + (k - 53)) = 2 powi 53 * 2 powi (k - 53)"
    by (rule power_int_add) simp
  then show ?thesis by simp
qed

lemma round64_at:
  assumes "x \<noteq> 0" "expo x = k" "\<bar>rnd_at k x\<bar> < 2 ^ 1024" "rnd_at k x \<noteq> 0"
  shows "round64 x = Fin (rnd_at k x)"
  using assms by (simp add: round64_def Let_def)

lemma binade_ge:
  assumes "2 powi j \<le> \<bar>x\<bar>" "\<bar>x\<bar> < (2::real) powi (k + 1)"
  shows "j \<le> k"
proof (rule ccontr)
  assume "\<not> j \<le> k"
  then have "k + 1 \<le> j" by simp
  then have "(2::real) powi (k + 1) \<le> 2 powi j" by (intro power_int_increasing) simp_all
  with assms show False by linarith
qed

lemma rnd_at_sign:
  assumes "2 powi k \<le> \<bar>x\<bar>" "\<bar>x\<bar> < 2 powi (k + 1)"
  shows "(0 < x \<longrightarrow> 0 < rnd_at k x) \<and> (x < 0 \<longrightarrow> rnd_at k x < 0)"
proof (intro conjI impI)
  assume "0 < x"
  then have "2 ^ 52 \<le> rint (x / 2 powi (k - 52))"
    using assms by (intro rnd_at_pos) simp_all
  moreover have "(0::int) < 2 ^ 52" by simp
  ultimately have "0 < rint (x / 2 powi (k - 52))" by linarith
  then show "0 < rnd_at k x" by (simp add: rnd_at_def)
next
  assume "x < 0"
  then have "rint (x / 2 powi (k - 52)) \<le> - (2 ^ 52)"
    using assms by (intro rnd_at_neg) simp_all
  moreover have "(0::int) < 2 ^ 52" by simp
  ultimately have "rint (x / 2 powi (k - 52)) < 0" by linarith
  then show "rnd_at k x < 0" by (simp add: rnd_at_def mult_neg_pos)
qed

lemma round64_normal:
  assumes lo: "2 powi (- 1022) \<le> \<bar>x\<bar>" and hi: "\<bar>x\<bar> \<le> 2 ^ 1023"
  shows "\<exists>y. round64 x = Fin y \<and> \<bar>y - x\<bar> \<le> \<bar>x\<bar> / 2 ^ 53 \<and>
             (0 < x \<longrightarrow> 0 < y) \<and> (x < 0 \<longrightarrow> y < 0)"
proof -
  have "(0::real) < 2 powi (- 1022)" by simp
  with lo have "0 < \<bar>x\<bar>" by linarith
  then have x0: "x \<noteq> 0" by simp
  from binade_exists[OF x0] obtain k where
    k: "2 powi k \<le> \<bar>x\<bar>" "\<bar>x\<bar> < 2 powi (k + 1)" by blast
  have k_lo: "- 1022 \<le> k" using lo k(2) by (rule binade_ge)
  have e: "expo x = k" using k k_lo by (rule expo_eq)
  let ?y = "rnd_at k x"
  have err: "\<bar>?y - x\<bar> \<le> \<bar>x\<bar> / 2 ^ 53"
  proof -
    have "\<bar>?y - x\<bar> \<le> 2 powi k / 2 ^ 53"
      using rnd_at_err[of k x] by (simp add: two_powi_53)
    also have "\<dots> \<le> \<bar>x\<bar> / 2 ^ 53" using k(1) by (simp add: divide_right_mono)
    finally show ?thesis .
  qed
  have sg: "(0 < x \<longrightarrow> 0 < ?y) \<and> (x < 0 \<longrightarrow> ?y < 0)"
    using k by (rule rnd_at_sign)
  have ny: "?y \<noteq> 0" using sg x0 by (cases "0 < x") auto
  have "\<bar>?y\<bar> \<le> \<bar>x\<bar> + \<bar>x\<bar> / 2 ^ 53" using err by linarith
  also have "\<dots> \<le> 2 ^ 1023 + 2 ^ 1023 / 2 ^ 53"
    using hi by (intro add_mono divide_right_mono) simp_all
  also have "\<dots> < (2::real) ^ 1024" by simp
  finally have "\<bar>?y\<bar> < 2 ^ 1024" .
  then have "round64 x = Fin ?y" using x0 e ny by (intro round64_at) simp_all
  with err sg show ?thesis by blast
qed

lemma round64_binade:
  assumes "2 powi k \<le> \<bar>x\<bar>" "\<bar>x\<bar> < 2 powi (k + 1)" "- 1022 \<le> k"
    and "\<bar>rnd_at k x\<bar> < 2 ^ 1024"
  shows "round64 x = Fin (rnd_at k x)"
proof -
  have "(0::real) < 2 powi k" by simp
  with assms(1) have "0 < \<bar>x\<bar>" by linarith
  then have x0: "x \<noteq> 0" by simp
  have e: "expo x = k" using assms(1-3) by (rule expo_eq)
  have "rnd_at k x \<noteq> 0"
    using rnd_at_sign[OF assms(1,2)] x0 by (cases "0 < x") auto
  with x0 e assms(4) show ?thesis by (intro round64_at) simp_all
qed

lemma rnd_at_double: "rnd_at (k + 1) (2 * x) = 2 * rnd_at k x"
proof -
  have "(2::real) powi (k + 1 - 52) = 2 * 2 powi (k - 52)"
    using two_powi_Suc[of "k - 52"] by (simp add: algebra_simps)
  then show ?thesis by (simp add: rnd_at_def)
qed

lemma rnd_at_bound:
  assumes "2 powi k \<le> \<bar>x\<bar>" "\<bar>x\<bar> < 2 powi (k + 1)"
  shows "\<bar>rnd_at k x\<bar> \<le> 2 powi (k + 1)"
proof -
  let ?u = "(2::real) powi (k - 52)"
  let ?n = "rint (x / ?u)"
  have u: "0 < ?u" by simp
  have p52: "(0::int) < 2 ^ 52" by simp
  have "\<bar>?n\<bar> \<le> 2 ^ 53"
  proof (cases "0 \<le> x")
    case True
    then have a: "2 powi k \<le> x" "x < 2 powi (k + 1)" using assms by simp_all
    have "2 ^ 52 \<le> ?n" "?n \<le> 2 ^ 53" using a by (rule rnd_at_pos)+
    with p52 show ?thesis by linarith
  next
    case False
    then have a: "2 powi k \<le> - x" "- x < 2 powi (k + 1)" using assms by simp_all
    have "?n \<le> - (2 ^ 52)" "- (2 ^ 53) \<le> ?n" using a by (rule rnd_at_neg)+
    with p52 show ?thesis by linarith
  qed
  then have "\<bar>of_int ?n :: real\<bar> \<le> 2 ^ 53"
    by (metis (mono_tags) of_int_abs of_int_le_iff of_int_numeral of_int_power)
  then have le: "\<bar>of_int ?n\<bar> * ?u \<le> 2 ^ 53 * ?u" using u by (intro mult_right_mono) simp_all
  have eq: "(2::real) ^ 53 * ?u = 2 powi (k + 1)"
    using two_powi_split[of k] two_powi_Suc[of k] by simp
  have "\<bar>rnd_at k x\<bar> = \<bar>of_int ?n\<bar> * ?u" using u by (simp add: rnd_at_def abs_mult)
  also note le
  also note eq
  finally show ?thesis .
qed

lemma round64_scale2:
  assumes lo: "2 powi (- 1022) \<le> \<bar>x\<bar>" and hi: "\<bar>x\<bar> \<le> 2 ^ 1022" and r: "round64 x = Fin y"
  shows "round64 (2 * x) = Fin (2 * y)"
proof -
  have "(0::real) < 2 powi (- 1022)" by simp
  with lo have "0 < \<bar>x\<bar>" by linarith
  then have x0: "x \<noteq> 0" by simp
  from binade_exists[OF x0] obtain k where
    k: "2 powi k \<le> \<bar>x\<bar>" "\<bar>x\<bar> < 2 powi (k + 1)" by blast
  have k_lo: "- 1022 \<le> k" using lo k(2) by (rule binade_ge)
  have "2 powi k \<le> (2::real) powi 1022" using k(1) hi by simp
  then have k_hi: "k \<le> 1022" by (rule power_int_le_imp_le_exp[rotated]) simp_all
  have b: "\<bar>rnd_at k x\<bar> \<le> 2 powi (k + 1)" using k by (rule rnd_at_bound)
  have "(2::real) powi (k + 1) \<le> 2 powi 1023" using k_hi by (intro power_int_increasing) simp_all
  with b have b1: "\<bar>rnd_at k x\<bar> \<le> 2 ^ 1023" by simp
  then have "\<bar>rnd_at k x\<bar> < 2 ^ 1024" by (simp add: less_le_trans[OF le_less_trans])
  then have "round64 x = Fin (rnd_at k x)" using k k_lo by (intro round64_binade)
  with r have y: "y = rnd_at k x" by simp
  have k2: "2 powi (k + 1) \<le> \<bar>2 * x\<bar>" "\<bar>2 * x\<bar> < 2 powi (k + 1 + 1)"
    using k two_powi_Suc[of k] two_powi_Suc[of "k + 1"] by (simp_all add: abs_mult)
  have "\<bar>rnd_at (k + 1) (2 * x)\<bar> \<le> 2 powi (k + 1 + 1)" using k2 by (rule rnd_at_bound)
  moreover have "(2::real) powi (k + 1 + 1) \<le> 2 powi 1024"
    using k_hi by (intro power_int_increasing) simp_all
  moreover have "\<bar>rnd_at (k + 1) (2 * x)\<bar> \<noteq> 2 ^ 1024"
  proof
    assume "\<bar>rnd_at (k + 1) (2 * x)\<bar> = 2 ^ 1024"
    then have "\<bar>rnd_at k x\<bar> = 2 ^ 1023" by (simp add: rnd_at_double abs_mult)
    moreover have "\<bar>rnd_at k x - x\<bar> \<le> 2 powi (k - 53)" by (rule rnd_at_err)
    moreover have "(2::real) powi (k - 53) \<le> 2 powi 969"
      using k_hi by (intro power_int_increasing) simp_all
    ultimately have "2 ^ 1023 - 2 ^ 969 \<le> \<bar>x\<bar>" by simp
    with hi show False by simp
  qed
  ultimately have "\<bar>rnd_at (k + 1) (2 * x)\<bar> < 2 ^ 1024" by simp
  then have "round64 (2 * x) = Fin (rnd_at (k + 1) (2 * x))"
    using k2 k_lo by (intro round64_binade) simp_all
  then show ?thesis by (simp add: rnd_at_double y)
qed

lemma rnd_at_of_int: "rnd_at k (of_int n * 2 powi (k - 52)) = of_int n * 2 powi (k - 52)"
  by (simp add: rnd_at_def)

lemma round64_idem:
  assumes lo: "2 powi (- 1022) \<le> \<bar>x\<bar>" and hi: "\<bar>x\<bar> \<le> 2 ^ 1023" and r: "round64 x = Fin y"
  shows "round64 y = Fin y"
proof -
  have "(0::real) < 2 powi (- 1022)" by simp
  with lo have "0 < \<bar>x\<bar>" by linarith
  then have x0: "x \<noteq> 0" by simp
  from binade_exists[OF x0] obtain k where
    k: "2 powi k \<le> \<bar>x\<bar>" "\<bar>x\<bar> < 2 powi (k + 1)" by blast
  have k_lo: "- 1022 \<le> k" using lo k(2) by (rule binade_ge)
  let ?u = "(2::real) powi (k - 52)"
  let ?n = "rint (x / ?u)"
  have u: "0 < ?u" by simp
  have err: "\<bar>rnd_at k x - x\<bar> \<le> \<bar>x\<bar> / 2 ^ 53"
  proof -
    have "\<bar>rnd_at k x - x\<bar> \<le> 2 powi k / 2 ^ 53"
      using rnd_at_err[of k x] by (simp add: two_powi_53)
    also have "\<dots> \<le> \<bar>x\<bar> / 2 ^ 53" using k(1) by (simp add: divide_right_mono)
    finally show ?thesis .
  qed
  have "\<bar>rnd_at k x\<bar> \<le> \<bar>x\<bar> + \<bar>x\<bar> / 2 ^ 53" using err by linarith
  also have "\<dots> \<le> 2 ^ 1023 + 2 ^ 1023 / 2 ^ 53"
    using hi by (intro add_mono divide_right_mono) simp_all
  also have "\<dots> < (2::real) ^ 1024" by simp
  finally have small: "\<bar>rnd_at k x\<bar> < 2 ^ 1024" .
  then have "round64 x = Fin (rnd_at k x)" using k k_lo by (intro round64_binade)
  with r have y: "y = of_int ?n * ?u" by (simp add: rnd_at_def)
  have ysmall: "\<bar>y\<bar> < 2 ^ 1024" using small by (simp add: y rnd_at_def)
  have p52: "(0::int) < 2 ^ 52" by simp
  have n: "2 ^ 52 \<le> \<bar>?n\<bar>" "\<bar>?n\<bar> \<le> 2 ^ 53"
  proof -
    show "2 ^ 52 \<le> \<bar>?n\<bar>"
    proof (cases "0 \<le> x")
      case True
      then have a: "2 powi k \<le> x" "x < 2 powi (k + 1)" using k by simp_all
      have "2 ^ 52 \<le> ?n" using a by (rule rnd_at_pos)
      with p52 show ?thesis by linarith
    next
      case False
      then have a: "2 powi k \<le> - x" "- x < 2 powi (k + 1)" using k by simp_all
      have "?n \<le> - (2 ^ 52)" using a by (rule rnd_at_neg)
      with p52 show ?thesis by linarith
    qed
    show "\<bar>?n\<bar> \<le> 2 ^ 53"
    proof (cases "0 \<le> x")
      case True
      then have a: "2 powi k \<le> x" "x < 2 powi (k + 1)" using k by simp_all
      have "2 ^ 52 \<le> ?n" "?n \<le> 2 ^ 53" using a by (rule rnd_at_pos)+
      with p52 show ?thesis by linarith
    next
      case False
      then have a: "2 powi k \<le> - x" "- x < 2 powi (k + 1)" using k by simp_all
      have "?n \<le> - (2 ^ 52)" "- (2 ^ 53) \<le> ?n" using a by (rule rnd_at_neg)+
      with p52 show ?thesis by linarith
    qed
  qed
  have absy: "\<bar>y\<bar> = of_int \<bar>?n\<bar> * ?u" using u by (simp add: y abs_mult)
  have lo_y: "2 powi k \<le> \<bar>y\<bar>"
  proof -
    have "(2::real) ^ 52 \<le> of_int \<bar>?n\<bar>" using n(1) by (metis of_int_le_iff of_int_numeral of_int_power)
    then have "2 ^ 52 * ?u \<le> of_int \<bar>?n\<bar> * ?u" using u by (intro mult_right_mono) simp_all
    then show ?thesis using two_powi_split[of k] by (simp add: absy)
  qed
  show ?thesis
  proof (cases "\<bar>?n\<bar> < 2 ^ 53")
    case True
    then have "of_int \<bar>?n\<bar> < (2::real) ^ 53" by (metis of_int_less_iff of_int_numeral of_int_power)
    then have lt: "of_int \<bar>?n\<bar> * ?u < 2 ^ 53 * ?u" using u by (intro mult_strict_right_mono) simp_all
    have eq53: "(2::real) ^ 53 * ?u = 2 powi (k + 1)"
      using two_powi_split[of k] two_powi_Suc[of k] by simp
    note absy
    also note lt
    also note eq53
    finally have hi_y: "\<bar>y\<bar> < 2 powi (k + 1)" .
    have same: "rnd_at k y = y" unfolding y by (rule rnd_at_of_int)
    have "round64 y = Fin (rnd_at k y)"
      using lo_y hi_y k_lo ysmall by (intro round64_binade) (simp_all add: same)
    then show ?thesis by (simp add: same)
  next
    case False
    with n(2) have eq: "\<bar>?n\<bar> = 2 ^ 53" by simp
    then have n53: "of_int \<bar>?n\<bar> = (2::real) ^ 53" by (metis of_int_numeral of_int_power)
    have eq53: "(2::real) ^ 53 * ?u = 2 powi (k + 1)"
      using two_powi_split[of k] two_powi_Suc[of k] by simp
    have ay: "\<bar>y\<bar> = 2 powi (k + 1)" unfolding absy n53 by (rule eq53)
    have b1: "2 powi (k + 1) \<le> \<bar>y\<bar>" using ay by simp
    have b2: "\<bar>y\<bar> < 2 powi (k + 1 + 1)" using ay two_powi_Suc[of "k + 1"] by simp
    have u2: "(2::real) powi (k + 1 - 52) = 2 * ?u"
      using two_powi_Suc[of "k - 52"] by (simp add: algebra_simps)
    from eq have "?n = 2 ^ 53 \<or> ?n = - (2 ^ 53)" by linarith
    then have "y = of_int (2 ^ 52) * (2 * ?u) \<or> y = of_int (- (2 ^ 52)) * (2 * ?u)"
      by (auto simp: y)
    then have "y = of_int (2 ^ 52) * (2::real) powi (k + 1 - 52) \<or>
               y = of_int (- (2 ^ 52)) * (2::real) powi (k + 1 - 52)"
      by (simp only: u2)
    then have same: "rnd_at (k + 1) y = y"
      using rnd_at_of_int[of "k + 1" "2 ^ 52"] rnd_at_of_int[of "k + 1" "- (2 ^ 52)"]
      by (elim disjE) (simp_all only:)
    have "round64 y = Fin (rnd_at (k + 1) y)"
      using b1 b2 k_lo ysmall by (intro round64_binade) (simp_all add: same)
    then show ?thesis by (simp add: same)
  qed
qed

lemma round64_half:
  assumes lo: "2 powi (- 1021) \<le> \<bar>x\<bar>" and hi: "\<bar>x\<bar> \<le> 2 ^ 1023" and r: "round64 x = Fin y"
  shows "round64 (x / 2) = Fin (y / 2)"
proof -
  have "(2::real) powi (- 1021) = 2 * 2 powi (- 1022)"
    using two_powi_Suc[of "- 1022"] by simp
  with lo have lo': "2 powi (- 1022) \<le> \<bar>x / 2\<bar>" by simp
  have hi': "\<bar>x / 2\<bar> \<le> 2 ^ 1022" using hi by simp
  have "\<bar>x / 2\<bar> \<le> 2 ^ 1023" using hi' by simp
  from round64_normal[OF lo' this] obtain z where z: "round64 (x / 2) = Fin z" by blast
  from round64_scale2[OF lo' hi' z] have "round64 x = Fin (2 * z)" by simp
  with r have "y = 2 * z" by simp
  with z show ?thesis by simp
qed

section \<open>The float64 value of the numerals\<close>

lemma round64_eval:
  assumes "2 powi k \<le> \<bar>x\<bar>" "\<bar>x\<bar> < 2 powi (k + 1)" "- 1022 \<le> k"
    and "rnd_at k x = y" "\<bar>y\<bar> < 2 ^ 1024"
  shows "round64 x = Fin y"
  using round64_binade[OF assms(1-3)] assms(4,5) by simp

lemma lit_2: "lit 2 = Fin 2"
  unfolding lit_def
  by (rule round64_eval[where k = 1]) (simp_all add: rnd_at_def rint_def power_int_minus)

lemma lit_8: "lit 8 = Fin 8"
  unfolding lit_def
  by (rule round64_eval[where k = 3]) (simp_all add: rnd_at_def rint_def power_int_minus)

lemma lit_981: "lit 9.81 = Fin (5522539043063071 / 2 ^ 49)"
  unfolding lit_def
  by (rule round64_eval[where k = 3]) (simp_all add: rnd_at_def rint_def power_int_minus)

lemma lit_005: "lit 0.05 = Fin (3602879701896397 / 2 ^ 56)"
  unfolding lit_def
  by (rule round64_eval[where k = "- 5"]) (simp_all add: rnd_at_def rint_def power_int_minus)

lemma lit_12: "lit 1.2 = Fin (5404319552844595 / 2 ^ 52)"
  unfolding lit_def
  by (rule round64_eval[where k = 0]) (simp_all add: rnd_at_def rint_def power_int_minus)

lemma lit_06: "lit 0.6 = Fin (5404319552844595 / 2 ^ 53)"
  unfolding lit_def
  by (rule round64_eval[where k = "- 1"]) (simp_all add: rnd_at_def rint_def power_int_minus)

section \<open>Bounds on pi\<close>

lemma sin_coeff_values:
  "sin_coeff 0 = 0" "sin_coeff (Suc 0) = 1" "sin_coeff 2 = 0" "sin_coeff 3 = - 1 / 6"
  "sin_coeff 4 = 0" "sin_coeff 5 = 1 / 120" "sin_coeff 6 = 0" "sin_coeff 7 = - 1 / 5040"
  "sin_coeff 8 = 0" "sin_coeff 9 = 1 / 362880" "sin_coeff 10 = 0"
  by (simp_all add: sin_coeff_def fact_numeral)

lemma sin_taylor9:
  fixes x :: real
  assumes "0 \<le> x"
  shows "\<bar>sin x - (x - x ^ 3 / 6 + x ^ 5 / 120 - x ^ 7 / 5040 + x ^ 9 / 362880)\<bar>
           \<le> x ^ 11 / 39916800"
proof -
  have "\<bar>sin x - (\<Sum>m<11. sin_coeff m * x ^ m)\<bar> \<le> inverse (fact 11) * \<bar>x\<bar> ^ 11"
    by (rule Maclaurin_sin_bound)
  moreover have "(\<Sum>m<11. sin_coeff m * x ^ m) =
      x - x ^ 3 / 6 + x ^ 5 / 120 - x ^ 7 / 5040 + x ^ 9 / 362880"
  proof -
    have "{..<11::nat} = {0, 1, 2, 3, 4, 5, 6, 7, 8, 9, 10}" by auto arith
    then show ?thesis by (simp add: sin_coeff_values)
  qed
  ultimately show ?thesis using assms by (simp add: fact_numeral)
qed

lemma sin_upper9:
  fixes x :: real
  assumes "0 \<le> x"
  shows "sin x \<le> (x - x ^ 3 / 6 + x ^ 5 / 120 - x ^ 7 / 5040 + x ^ 9 / 362880)
                  + x ^ 11 / 39916800"
  using sin_taylor9[OF assms] by linarith

lemma sin_lower9:
  fixes x :: real
  assumes "0 \<le> x"
  shows "(x - x ^ 3 / 6 + x ^ 5 / 120 - x ^ 7 / 5040 + x ^ 9 / 362880)
                  - x ^ 11 / 39916800 \<le> sin x"
  using sin_taylor9[OF assms] by linarith

lemma pi_lower: "31415926524 / 10 ^ 10 < pi"
proof -
  let ?a = "5235987754 / 10 ^ 10 :: real"
  have "sin ?a \<le> (?a - ?a ^ 3 / 6 + ?a ^ 5 / 120 - ?a ^ 7 / 5040 + ?a ^ 9 / 362880)
                  + ?a ^ 11 / 39916800"
    by (rule sin_upper9) simp
  also have "\<dots> < 1 / 2" by (simp add: power_divide)
  finally have s: "sin ?a < sin (pi / 6)" by (simp add: sin_30)
  have "\<not> pi / 6 \<le> ?a"
  proof
    assume h: "pi / 6 \<le> ?a"
    have "?a \<le> pi / 2" using pi_ge_two by simp
    then have "sin (pi / 6) \<le> sin ?a"
      using h by (intro sin_monotone_2pi_le) simp_all
    with s show False by simp
  qed
  then show ?thesis by simp
qed

lemma pi_upper: "pi < 31415926548 / 10 ^ 10"
proof -
  let ?b = "5235987758 / 10 ^ 10 :: real"
  have "1 / 2 < (?b - ?b ^ 3 / 6 + ?b ^ 5 / 120 - ?b ^ 7 / 5040 + ?b ^ 9 / 362880)
                  - ?b ^ 11 / 39916800"
    by (simp add: power_divide)
  also have "\<dots> \<le> sin ?b"
    by (rule sin_lower9) simp
  finally have s: "sin (pi / 6) < sin ?b" by (simp add: sin_30)
  have "\<not> ?b \<le> pi / 6"
  proof
    assume h: "?b \<le> pi / 6"
    have "sin ?b \<le> sin (pi / 6)"
      using h by (intro sin_monotone_2pi_le) simp_all
    with s show False by simp
  qed
  then show ?thesis by simp
qed

section \<open>The operations on finite values\<close>

lemma fmul_Fin: "a * b \<noteq> 0 \<Longrightarrow> fmul (Fin a) (Fin b) = round64 (a * b)"
  by (simp add: fmul_def round_to_def)

lemma fdiv_Fin: "a \<noteq> 0 \<Longrightarrow> b \<noteq> 0 \<Longrightarrow> fdiv (Fin a) (Fin b) = round64 (a / b)"
  by (simp add: fdiv_def round_to_def)

lemma fsqrt_Fin: "0 \<le> a \<Longrightarrow> fsqrt (Fin a) = round64 (sqrt a)"
  by simp

lemma two_np_pi: "fmul (Fin 2) np_pi = Fin (884279719003555 / 2 ^ 47)"
proof -
  have "round64 (2 * (884279719003555 / 2 ^ 48)) = Fin (884279719003555 / 2 ^ 47)"
    by (rule round64_eval[where k = 2]) (simp_all add: rnd_at_def rint_def power_int_minus)
  then show ?thesis by (simp add: np_pi_def fmul_Fin)
qed

section \<open>Rounding errors\<close>

lemma rel_bounds_refl: "rel_bounds 1 1 X X"
  by (simp add: rel_bounds_def)

lemma rel_bounds_pos: "rel_bounds l h X x \<Longrightarrow> 0 < l \<Longrightarrow> 0 < X \<Longrightarrow> 0 < x"
  unfolding rel_bounds_def by (meson less_le_trans mult_pos_pos)

lemma rel_bounds_weaken:
  "rel_bounds l h X x \<Longrightarrow> l' \<le> l \<Longrightarrow> h \<le> h' \<Longrightarrow> 0 \<le> X \<Longrightarrow> rel_bounds l' h' X x"
  unfolding rel_bounds_def
  by (meson mult_right_mono order_trans)

lemma rel_bounds_mult:
  assumes "rel_bounds l1 h1 X x" "rel_bounds l2 h2 Y y" "0 < l1" "0 < l2" "0 < X" "0 < Y"
  shows "rel_bounds (l1 * l2) (h1 * h2) (X * Y) (x * y)"
proof -
  have x: "l1 * X \<le> x" "x \<le> h1 * X" and y: "l2 * Y \<le> y" "y \<le> h2 * Y"
    using assms by (simp_all add: rel_bounds_def)
  have px: "0 \<le> l1 * X" and py: "0 \<le> l2 * Y" using assms by simp_all
  have "(l1 * X) * (l2 * Y) \<le> x * y"
    using x y px py by (intro mult_mono) auto
  moreover have "x * y \<le> (h1 * X) * (h2 * Y)"
    using x y px py by (intro mult_mono) auto
  ultimately show ?thesis by (simp add: rel_bounds_def mult_ac)
qed

lemma rel_bounds_div:
  assumes "rel_bounds l1 h1 X x" "rel_bounds l2 h2 Y y" "0 < l1" "0 < l2" "0 < X" "0 < Y"
  shows "rel_bounds (l1 / h2) (h1 / l2) (X / Y) (x / y)"
proof -
  have x: "l1 * X \<le> x" "x \<le> h1 * X" and y: "l2 * Y \<le> y" "y \<le> h2 * Y"
    using assms by (simp_all add: rel_bounds_def)
  have px: "0 < l1 * X" and py: "0 < l2 * Y" using assms by simp_all
  have "(l1 * X) / (h2 * Y) \<le> x / y"
    using x y px py by (intro frac_le) auto
  moreover have "x / y \<le> (h1 * X) / (l2 * Y)"
    using x y px py by (intro frac_le) auto
  ultimately show ?thesis by (simp add: rel_bounds_def)
qed

lemma rel_bounds_sqrt:
  assumes "rel_bounds l h X x" "0 < l" "l \<le> 1" "1 \<le> h" "0 < X"
  shows "rel_bounds l h (sqrt X) (sqrt x)"
proof -
  have x: "l * X \<le> x" "x \<le> h * X" using assms(1) by (simp_all add: rel_bounds_def)
  have "l * sqrt X \<le> sqrt l * sqrt X"
  proof -
    have "l\<^sup>2 \<le> l" using assms(2,3) by (simp add: power2_eq_square mult_left_le)
    then have "l \<le> sqrt l" by (rule real_le_rsqrt)
    then show ?thesis using assms(5) by (intro mult_right_mono) simp_all
  qed
  also have "\<dots> = sqrt (l * X)" by (simp add: real_sqrt_mult)
  also have "\<dots> \<le> sqrt x" using x(1) by simp
  finally have lo: "l * sqrt X \<le> sqrt x" .
  have "sqrt x \<le> sqrt (h * X)" using x(2) by simp
  also have "\<dots> = sqrt h * sqrt X" by (simp add: real_sqrt_mult)
  also have "\<dots> \<le> h * sqrt X"
  proof -
    have "h \<le> h\<^sup>2" using assms(4) by (simp add: power2_eq_square)
    then have "sqrt h \<le> h" using assms(4) by (intro real_le_lsqrt) simp_all
    then show ?thesis using assms(5) by (intro mult_right_mono) simp_all
  qed
  finally have hi: "sqrt x \<le> h * sqrt X" .
  from lo hi show ?thesis by (simp add: rel_bounds_def)
qed

lemma round64_rel:
  assumes b: "rel_bounds l h X x" and l: "1 / 2 \<le> l" and h: "h \<le> 2"
    and lo: "2 powi (- 1021) \<le> X" and hi: "X \<le> 2 ^ 1022"
  shows "\<exists>y. round64 x = Fin y \<and> 0 < y \<and>
             rel_bounds ((1 - 1 / 2 ^ 53) * l) ((1 + 1 / 2 ^ 53) * h) X y"
proof -
  have "(0::real) < 2 powi (- 1021)" by simp
  with lo have X: "0 < X" by linarith
  have x: "l * X \<le> x" "x \<le> h * X" using b by (simp_all add: rel_bounds_def)
  have "1 / 2 * X \<le> l * X" using l X by (intro mult_right_mono) simp_all
  with x(1) have x1: "X / 2 \<le> x" by simp
  have "h * X \<le> 2 * X" using h X by (intro mult_right_mono) simp_all
  with x(2) have x2: "x \<le> 2 * X" by simp
  have xpos: "0 < x" using x1 X by linarith
  have "(2::real) powi (- 1021) = 2 * 2 powi (- 1022)"
    using two_powi_Suc[of "- 1022"] by simp
  with lo x1 have n1: "2 powi (- 1022) \<le> \<bar>x\<bar>" by linarith
  have n2: "\<bar>x\<bar> \<le> 2 ^ 1023" using x2 hi xpos by simp
  from round64_normal[OF n1 n2] xpos obtain y where
    y: "round64 x = Fin y" "\<bar>y - x\<bar> \<le> x / 2 ^ 53" "0 < y" by auto
  from y(2)[unfolded abs_le_iff]
  have b1: "(1 - 1 / 2 ^ 53) * x \<le> y" "y \<le> (1 + 1 / 2 ^ 53) * x"
    by (simp_all add: algebra_simps)
  have "(1 - 1 / 2 ^ 53) * (l * X) \<le> (1 - 1 / 2 ^ 53) * x"
    using x(1) by (intro mult_left_mono) simp_all
  moreover have "(1 + 1 / 2 ^ 53) * x \<le> (1 + 1 / 2 ^ 53) * (h * X)"
    using x(2) by (intro mult_left_mono) simp_all
  ultimately have "rel_bounds ((1 - 1 / 2 ^ 53) * l) ((1 + 1 / 2 ^ 53) * h) X y"
    using b1 by (simp add: rel_bounds_def mult_ac)
  with y(1,3) show ?thesis by blast
qed

lemma rel_bounds_scale:
  assumes "rel_bounds l h (c * X) x" "a \<le> c" "c \<le> b" "0 \<le> l" "0 \<le> h" "0 \<le> X"
  shows "rel_bounds (l * a) (h * b) X x"
proof -
  have x: "l * (c * X) \<le> x" "x \<le> h * (c * X)" using assms(1) by (simp_all add: rel_bounds_def)
  have "l * (a * X) \<le> l * (c * X)"
    using assms(2,4,6) by (intro mult_left_mono mult_right_mono) simp_all
  moreover have "h * (c * X) \<le> h * (b * X)"
    using assms(3,5,6) by (intro mult_left_mono mult_right_mono) simp_all
  ultimately show ?thesis using x by (simp add: rel_bounds_def mult_ac)
qed

lemma pi_over_np_pi:
  "1 - 4 / 10 ^ 10 \<le> 2 * pi / (884279719003555 / 2 ^ 47)"
  "2 * pi / (884279719003555 / 2 ^ 47) \<le> 1 + 4 / 10 ^ 10"
  using pi_lower pi_upper by (simp_all add: field_simps)

lemma square_range:
  fixes T :: real
  assumes "2 powi (- 500) \<le> T" "T \<le> 2 ^ 500"
  shows "2 powi (- 1000) \<le> T * T" "T * T \<le> 2 ^ 1000" "0 < T"
proof -
  have p: "(0::real) < 2 powi (- 500)" by simp
  with assms(1) show T: "0 < T" by linarith
  have "(2::real) powi (- 500) * 2 powi (- 500) \<le> T * T"
    using assms(1) p by (intro mult_mono) simp_all
  moreover have "(2::real) powi (- 500 + - 500) = 2 powi (- 500) * 2 powi (- 500)"
    by (rule power_int_add) simp
  ultimately show "2 powi (- 1000) \<le> T * T" by simp
  have "T * T \<le> 2 ^ 500 * 2 ^ 500"
    using assms(2) T by (intro mult_mono) simp_all
  also have "\<dots> = (2::real) ^ 1000" by (simp flip: power_add)
  finally show "T * T \<le> 2 ^ 1000" .
qed

lemma Lp_chain:
  assumes "2 powi (- 500) \<le> T" "T \<le> 2 ^ 500"
  shows "\<exists>l. Lp (Fin T) = Fin l \<and> 0 < l \<and>
             rel_bounds (1 - 5 / 10 ^ 10) (1 + 5 / 10 ^ 10) (9.81 * T\<^sup>2 / (2 * pi)) l"
proof -
  note sq = square_range[OF assms]
  define u :: real where "u = 1 / 2 ^ 53"
  have u: "0 < u" "u < 1 / 10 ^ 15" by (simp_all add: u_def)
  let ?c = "5522539043063071 / 2 ^ 49 :: real"
  let ?d = "884279719003555 / 2 ^ 47 :: real"
  have c: "rel_bounds (1 - 1 / 2 ^ 53) (1 + 1 / 2 ^ 53) 9.81 ?c"
    by (simp add: rel_bounds_def)
  have lo1000: "(2::real) powi (- 1021) \<le> 2 powi (- 1000)"
    by (intro power_int_increasing) simp_all
  have r1: "2 powi (- 1021) \<le> T * T" "T * T \<le> 2 ^ 1022"
    using sq(1,2) lo1000 by simp_all
  from round64_rel[OF rel_bounds_refl[of "T * T"] _ _ r1]
  obtain s where s: "round64 (T * T) = Fin s" "0 < s"
    "rel_bounds ((1 - 1 / 2 ^ 53) * 1) ((1 + 1 / 2 ^ 53) * 1) (T * T) s" by auto
  have e1: "fpow2 (Fin T) = Fin s"
    using sq(3) s(1) by (simp add: fpow2_def fmul_Fin)
  have cs: "rel_bounds ((1 - 1 / 2 ^ 53) * ((1 - 1 / 2 ^ 53) * 1))
              ((1 + 1 / 2 ^ 53) * ((1 + 1 / 2 ^ 53) * 1)) (9.81 * (T * T)) (?c * s)"
    using sq(3) by (intro rel_bounds_mult[OF c s(3)]) simp_all
  have r2: "2 powi (- 1021) \<le> 9.81 * (T * T)" "9.81 * (T * T) \<le> 2 ^ 1022"
  proof -
    have "2 powi (- 1021) \<le> T * T" by (rule r1(1))
    also have "\<dots> \<le> 9.81 * (T * T)" using sq(3) by simp
    finally show "2 powi (- 1021) \<le> 9.81 * (T * T)" .
    have "9.81 * (T * T) \<le> 9.81 * 2 ^ 1000" using sq(2) by simp
    also have "\<dots> \<le> (2::real) ^ 1022" by simp
    finally show "9.81 * (T * T) \<le> 2 ^ 1022" .
  qed
  from round64_rel[OF cs _ _ r2]
  obtain m where m: "round64 (?c * s) = Fin m" "0 < m"
    "rel_bounds ((1 - 1 / 2 ^ 53) * ((1 - 1 / 2 ^ 53) * ((1 - 1 / 2 ^ 53) * 1)))
       ((1 + 1 / 2 ^ 53) * ((1 + 1 / 2 ^ 53) * ((1 + 1 / 2 ^ 53) * 1))) (9.81 * (T * T)) m"
    by auto
  have e2: "fmul (lit 9.81) (fpow2 (Fin T)) = Fin m"
  proof -
    have "fmul (lit 9.81) (fpow2 (Fin T)) = fmul (Fin ?c) (Fin s)"
      by (simp only: lit_981 e1)
    also have "\<dots> = round64 (?c * s)" using s(2) by (intro fmul_Fin) simp
    finally show ?thesis by (simp only: m(1))
  qed
  have md: "rel_bounds ((1 - 1 / 2 ^ 53) * ((1 - 1 / 2 ^ 53) * ((1 - 1 / 2 ^ 53) * 1)) / 1)
       ((1 + 1 / 2 ^ 53) * ((1 + 1 / 2 ^ 53) * ((1 + 1 / 2 ^ 53) * 1)) / 1)
       (9.81 * (T * T) / ?d) (m / ?d)"
    using sq(3) by (intro rel_bounds_div[OF m(3) rel_bounds_refl]) simp_all
  have r3: "2 powi (- 1021) \<le> 9.81 * (T * T) / ?d" "9.81 * (T * T) / ?d \<le> 2 ^ 1022"
  proof -
    have "(2::real) powi (- 1021) \<le> 2 powi (- 1000)" by (rule lo1000)
    also have "\<dots> \<le> T * T" by (rule sq(1))
    also have "\<dots> \<le> 9.81 * (T * T) / ?d" using sq(3) by (simp add: field_simps)
    finally show "2 powi (- 1021) \<le> 9.81 * (T * T) / ?d" .
    have "9.81 * (T * T) / ?d \<le> 2 * (T * T)" using sq(3) by (simp add: field_simps)
    also have "\<dots> \<le> 2 * 2 ^ 1000" using sq(2) by simp
    also have "\<dots> \<le> (2::real) ^ 1022" by simp
    finally show "9.81 * (T * T) / ?d \<le> 2 ^ 1022" .
  qed
  from round64_rel[OF md _ _ r3]
  obtain l where l: "round64 (m / ?d) = Fin l" "0 < l"
    "rel_bounds ((1 - 1 / 2 ^ 53) * ((1 - 1 / 2 ^ 53) * ((1 - 1 / 2 ^ 53) * ((1 - 1 / 2 ^ 53) * 1)) / 1))
       ((1 + 1 / 2 ^ 53) * ((1 + 1 / 2 ^ 53) * ((1 + 1 / 2 ^ 53) * ((1 + 1 / 2 ^ 53) * 1)) / 1))
       (9.81 * (T * T) / ?d) l"
    by auto
  have e3: "Lp (Fin T) = Fin l"
  proof -
    have "Lp (Fin T) = fdiv (Fin m) (Fin ?d)"
      by (simp only: Lp_def e2 two_np_pi)
    also have "\<dots> = round64 (m / ?d)" using m(2) by (intro fdiv_Fin) simp_all
    finally show ?thesis by (simp only: l(1))
  qed
  have X: "9.81 * (T * T) / ?d = (2 * pi / ?d) * (9.81 * T\<^sup>2 / (2 * pi))"
    by (simp add: power2_eq_square)
  have "rel_bounds
       ((1 - 1 / 2 ^ 53) * ((1 - 1 / 2 ^ 53) * ((1 - 1 / 2 ^ 53) * ((1 - 1 / 2 ^ 53) * 1)) / 1)
          * (1 - 4 / 10 ^ 10))
       ((1 + 1 / 2 ^ 53) * ((1 + 1 / 2 ^ 53) * ((1 + 1 / 2 ^ 53) * ((1 + 1 / 2 ^ 53) * 1)) / 1)
          * (1 + 4 / 10 ^ 10))
       (9.81 * T\<^sup>2 / (2 * pi)) l"
    using l(3) unfolding X
    by (rule rel_bounds_scale[OF _ pi_over_np_pi]) (use sq(3) in simp_all)
  then have "rel_bounds (1 - 5 / 10 ^ 10) (1 + 5 / 10 ^ 10) (9.81 * T\<^sup>2 / (2 * pi)) l"
    by (rule rel_bounds_weaken) (use sq(3) in simp_all)
  with e3 l(2) show ?thesis by blast
qed

lemma sqrt_range:
  fixes Q :: real
  assumes "2 powi (- 1020) \<le> Q" "Q \<le> 2 ^ 1020"
  shows "2 powi (- 510) \<le> sqrt Q" "sqrt Q \<le> 2 ^ 510"
proof -
  have "((2::real) powi (- 510))\<^sup>2 = 2 powi (- 510) * 2 powi (- 510)"
    by (simp add: power2_eq_square)
  also have "\<dots> = (2::real) powi (- 510 + - 510)"
    by (rule power_int_add[symmetric]) simp
  finally have "((2::real) powi (- 510))\<^sup>2 \<le> Q" using assms(1) by simp
  then show "2 powi (- 510) \<le> sqrt Q" by (rule real_le_rsqrt)
  have "Q \<le> (2 ^ 510)\<^sup>2" using assms(2) by (simp flip: power_mult)
  then show "sqrt Q \<le> 2 ^ 510" by (intro real_le_lsqrt) simp_all
qed

lemma rel_range:
  fixes X x :: real
  assumes "rel_bounds lo hi X x" "1 / 2 \<le> lo" "hi \<le> 2"
    and "2 powi (- 1020) \<le> X" "X \<le> 2 ^ 1020"
  shows "2 powi (- 1021) \<le> x" "x \<le> 2 ^ 1021"
proof -
  have p: "(0::real) < 2 powi (- 1020)" by simp
  with assms(4) have X: "0 < X" by linarith
  have b: "lo * X \<le> x" "x \<le> hi * X" using assms(1) by (simp_all add: rel_bounds_def)
  have "1 / 2 * X \<le> lo * X" using assms(2) X by (intro mult_right_mono) simp_all
  moreover have "(2::real) powi (- 1021) = 1 / 2 * 2 powi (- 1020)"
    using two_powi_half[of "- 1020"] by simp
  ultimately show "2 powi (- 1021) \<le> x" using b(1) assms(4) by linarith
  have "hi * X \<le> 2 * X" using assms(3) X by (intro mult_right_mono) simp_all
  moreover have "(2::real) ^ 1021 = 2 * 2 ^ 1020" by simp
  ultimately show "x \<le> 2 ^ 1021" using b(2) assms(5) by linarith
qed

lemma root_chain:
  assumes T: "2 powi (- 500) \<le> T" "T \<le> 2 ^ 500" and H: "0 < H"
    and Q: "2 powi (- 1020) \<le> H / (9.81 * T\<^sup>2 / (2 * pi))"
           "H / (9.81 * T\<^sup>2 / (2 * pi)) \<le> 2 ^ 1020"
  obtains l q s where
    "Lp (Fin T) = Fin l" "0 < l"
    "rel_bounds (1 - 5 / 10 ^ 10) (1 + 5 / 10 ^ 10) (9.81 * T\<^sup>2 / (2 * pi)) l"
    "round64 (H / l) = Fin q" "0 < q"
    "rel_bounds (1 - 6 / 10 ^ 10) (1 + 6 / 10 ^ 10) (H / (9.81 * T\<^sup>2 / (2 * pi))) q"
    "round64 (sqrt q) = Fin s" "0 < s"
    "rel_bounds (1 - 7 / 10 ^ 10) (1 + 7 / 10 ^ 10) (sqrt (H / (9.81 * T\<^sup>2 / (2 * pi)))) s"
    "fsqrt (fdiv (Fin H) (Lp (Fin T))) = Fin s"
    "2 powi (- 1021) \<le> H / l" "H / l \<le> 2 ^ 1021"
    "2 powi (- 1021) \<le> sqrt q" "sqrt q \<le> 2 ^ 1021"
proof -
  define X where "X = 9.81 * T\<^sup>2 / (2 * pi)"
  have Tpos: "0 < T" using square_range(3)[OF T] .
  have X: "0 < X" using Tpos by (simp add: X_def)
  have QX: "0 < H / X" using H X by simp
  from Lp_chain[OF T] obtain l where l: "Lp (Fin T) = Fin l" "0 < l"
    "rel_bounds (1 - 5 / 10 ^ 10) (1 + 5 / 10 ^ 10) X l" by (auto simp: X_def)
  have hl: "rel_bounds (1 / (1 + 5 / 10 ^ 10)) (1 / (1 - 5 / 10 ^ 10)) (H / X) (H / l)"
    using H X by (intro rel_bounds_div[OF rel_bounds_refl l(3)]) simp_all
  have lo: "(2::real) powi (- 1021) \<le> 2 powi (- 1020)"
    by (intro power_int_increasing) simp_all
  have Q': "2 powi (- 1020) \<le> H / X" "H / X \<le> 2 ^ 1020"
    using Q unfolding X_def .
  have hi: "(2::real) ^ 1020 \<le> 2 ^ 1022" by simp
  have r1: "2 powi (- 1021) \<le> H / X" "H / X \<le> 2 ^ 1022"
    using Q' lo hi by linarith+
  from round64_rel[OF hl _ _ r1]
  obtain q where q: "round64 (H / l) = Fin q" "0 < q"
    "rel_bounds ((1 - 1 / 2 ^ 53) * (1 / (1 + 5 / 10 ^ 10)))
       ((1 + 1 / 2 ^ 53) * (1 / (1 - 5 / 10 ^ 10))) (H / X) q" by auto
  have q6: "rel_bounds (1 - 6 / 10 ^ 10) (1 + 6 / 10 ^ 10) (H / X) q"
    using q(3) by (rule rel_bounds_weaken) (use QX in simp_all)
  have sq: "rel_bounds (1 - 6 / 10 ^ 10) (1 + 6 / 10 ^ 10) (sqrt (H / X)) (sqrt q)"
    using q6 by (rule rel_bounds_sqrt) (use QX in simp_all)
  have sr: "2 powi (- 510) \<le> sqrt (H / X)" "sqrt (H / X) \<le> 2 ^ 510"
    using Q' by (rule sqrt_range)+
  have "(2::real) powi (- 1021) \<le> 2 powi (- 510)"
    by (intro power_int_increasing) simp_all
  with sr have r2: "2 powi (- 1021) \<le> sqrt (H / X)" "sqrt (H / X) \<le> 2 ^ 1022"
  proof -
    assume a: "(2::real) powi (- 1021) \<le> 2 powi (- 510)"
    from a sr(1) show "2 powi (- 1021) \<le> sqrt (H / X)" by linarith
    have "(2::real) ^ 510 \<le> 2 ^ 1022" by simp
    with sr(2) show "sqrt (H / X) \<le> 2 ^ 1022" by linarith
  qed
  from round64_rel[OF sq _ _ r2]
  obtain s where s: "round64 (sqrt q) = Fin s" "0 < s"
    "rel_bounds ((1 - 1 / 2 ^ 53) * (1 - 6 / 10 ^ 10))
       ((1 + 1 / 2 ^ 53) * (1 + 6 / 10 ^ 10)) (sqrt (H / X)) s" by auto
  have s7: "rel_bounds (1 - 7 / 10 ^ 10) (1 + 7 / 10 ^ 10) (sqrt (H / X)) s"
    using s(3) by (rule rel_bounds_weaken) (use QX in simp_all)
  have e: "fsqrt (fdiv (Fin H) (Lp (Fin T))) = Fin s"
  proof -
    have "fdiv (Fin H) (Lp (Fin T)) = round64 (H / l)"
      unfolding l(1) using H l(2) by (intro fdiv_Fin) simp_all
    then have "fsqrt (fdiv (Fin H) (Lp (Fin T))) = fsqrt (Fin q)" by (simp only: q(1))
    also have "\<dots> = round64 (sqrt q)" using q(2) by (intro fsqrt_Fin) simp
    finally show ?thesis by (simp only: s(1))
  qed
  have g1: "2 powi (- 1021) \<le> H / l" "H / l \<le> 2 ^ 1021"
    by (rule rel_range[OF hl _ _ Q'], simp, simp)+
  have w1: "(2::real) powi (- 1020) \<le> 2 powi (- 510)"
    by (intro power_int_increasing) simp_all
  have w2: "(2::real) ^ 510 \<le> 2 ^ 1020" by simp
  have sr': "2 powi (- 1020) \<le> sqrt (H / X)" "sqrt (H / X) \<le> 2 ^ 1020"
    using sr w1 w2 by linarith+
  have g2: "2 powi (- 1021) \<le> sqrt q" "sqrt q \<le> 2 ^ 1021"
    by (rule rel_range[OF sq _ _ sr'], simp, simp)+
  show thesis
    using that[OF l(1,2) l(3)[unfolded X_def] q(1,2) q6[unfolded X_def] s(1,2)
        s7[unfolded X_def] e g1 g2] .
qed

lemma quotient_chain:
  assumes T: "2 powi (- 500) \<le> T" "T \<le> 2 ^ 500" and H: "0 < H"
    and Q: "2 powi (- 1020) \<le> H / (9.81 * T\<^sup>2 / (2 * pi))"
           "H / (9.81 * T\<^sup>2 / (2 * pi)) \<le> 2 ^ 1020"
    and B: "2 powi (- 510) \<le> b" "b \<le> 2 ^ 510"
  obtains s r where
    "fsqrt (fdiv (Fin H) (Lp (Fin T))) = Fin s" "0 < s"
    "rel_bounds (1 - 7 / 10 ^ 10) (1 + 7 / 10 ^ 10) (sqrt (H / (9.81 * T\<^sup>2 / (2 * pi)))) s"
    "round64 (b / s) = Fin r" "0 < r"
    "rel_bounds (1 - 1 / 10 ^ 9) (1 + 1 / 10 ^ 9) (b / sqrt (H / (9.81 * T\<^sup>2 / (2 * pi)))) r"
    "iribarrenNb (Fin T) (Fin H) (Fin b) = Fin r"
    "2 powi (- 1021) \<le> b / s" "b / s \<le> 2 ^ 1021"
    "2 powi (- 1021) \<le> r" "r \<le> 2 ^ 1021"
proof -
  define X where "X = 9.81 * T\<^sup>2 / (2 * pi)"
  have Tpos: "0 < T" using square_range(3)[OF T] .
  have X: "0 < X" using Tpos by (simp add: X_def)
  have QX: "0 < sqrt (H / X)" using H X by simp
  have "(0::real) < 2 powi (- 510)" by simp
  with B(1) have b: "0 < b" by linarith
  have Q': "2 powi (- 1020) \<le> H / X" "H / X \<le> 2 ^ 1020"
    using Q unfolding X_def .
  have sr: "2 powi (- 510) \<le> sqrt (H / X)" "sqrt (H / X) \<le> 2 ^ 510"
    using Q' by (rule sqrt_range)+
  have E': "2 powi (- 1020) \<le> b / sqrt (H / X)" "b / sqrt (H / X) \<le> 2 ^ 1020"
  proof -
    have "(2::real) powi (- 510) / 2 ^ 510 \<le> b / sqrt (H / X)"
      using B(1) sr(2) QX by (intro frac_le) simp_all
    moreover have "(2::real) powi (- 1020) = 2 powi (- 510) / 2 ^ 510"
      by (simp add: power_int_minus field_simps flip: power_add)
    ultimately show "2 powi (- 1020) \<le> b / sqrt (H / X)" by simp
    have p: "(0::real) < 2 powi (- 510)" by simp
    have "b / sqrt (H / X) \<le> 2 ^ 510 / 2 powi (- 510)"
      using B(2) sr(1) b p by (intro frac_le) simp_all
    moreover have "(2::real) ^ 510 / 2 powi (- 510) = 2 ^ 1020"
      by (simp add: power_int_minus field_simps flip: power_add)
    ultimately show "b / sqrt (H / X) \<le> 2 ^ 1020" by simp
  qed
  from root_chain[OF T H Q] obtain l q s where
    c: "round64 (sqrt q) = Fin s" "0 < s"
       "rel_bounds (1 - 7 / 10 ^ 10) (1 + 7 / 10 ^ 10) (sqrt (H / X)) s"
       "fsqrt (fdiv (Fin H) (Lp (Fin T))) = Fin s"
    unfolding X_def by blast
  have bs: "rel_bounds (1 / (1 + 7 / 10 ^ 10)) (1 / (1 - 7 / 10 ^ 10)) (b / sqrt (H / X)) (b / s)"
    using b QX by (intro rel_bounds_div[OF rel_bounds_refl c(3)]) simp_all
  have lo: "(2::real) powi (- 1021) \<le> 2 powi (- 1020)"
    by (intro power_int_increasing) simp_all
  have hi: "(2::real) ^ 1020 \<le> 2 ^ 1022" by simp
  have r1: "2 powi (- 1021) \<le> b / sqrt (H / X)" "b / sqrt (H / X) \<le> 2 ^ 1022"
    using E' lo hi by linarith+
  from round64_rel[OF bs _ _ r1]
  obtain r where r: "round64 (b / s) = Fin r" "0 < r"
    "rel_bounds ((1 - 1 / 2 ^ 53) * (1 / (1 + 7 / 10 ^ 10)))
       ((1 + 1 / 2 ^ 53) * (1 / (1 - 7 / 10 ^ 10))) (b / sqrt (H / X)) r" by auto
  have r9: "rel_bounds (1 - 1 / 10 ^ 9) (1 + 1 / 10 ^ 9) (b / sqrt (H / X)) r"
    using r(3) by (rule rel_bounds_weaken) (use b QX in simp_all)
  have e: "iribarrenNb (Fin T) (Fin H) (Fin b) = Fin r"
  proof -
    have "iribarrenNb (Fin T) (Fin H) (Fin b) = fdiv (Fin b) (Fin s)"
      by (simp only: iribarrenNb_def Let_def c(4))
    also have "\<dots> = round64 (b / s)" using b c(2) by (intro fdiv_Fin) simp_all
    finally show ?thesis by (simp only: r(1))
  qed
  have g1: "2 powi (- 1021) \<le> b / s" "b / s \<le> 2 ^ 1021"
    by (rule rel_range[OF bs _ _ E'], simp, simp)+
  have g2: "2 powi (- 1021) \<le> r" "r \<le> 2 ^ 1021"
    by (rule rel_range[OF r9 _ _ E'], simp, simp)+
  show thesis
    using that[OF c(4,2) c(3)[unfolded X_def] r(1,2) r9[unfolded X_def] e g1 g2] .
qed

section \<open>Ranges without overflow and underflow\<close>

lemma wavelength_range:
  fixes T :: real
  assumes "2 powi (- 250) \<le> T" "T \<le> 2 ^ 250"
  shows "2 powi (- 500) \<le> 9.81 * T\<^sup>2 / (2 * pi)" "9.81 * T\<^sup>2 / (2 * pi) \<le> 2 ^ 501"
    "2 powi (- 500) \<le> T" "T \<le> 2 ^ 500"
proof -
  have p: "(0::real) < 2 powi (- 250)" by simp
  with assms(1) have T: "0 < T" by linarith
  have "(2::real) powi (- 250) * 2 powi (- 250) \<le> T * T"
    using assms(1) p by (intro mult_mono) simp_all
  moreover have "(2::real) powi (- 250 + - 250) = 2 powi (- 250) * 2 powi (- 250)"
    by (rule power_int_add) simp
  ultimately have lo: "2 powi (- 500) \<le> T\<^sup>2" by (simp add: power2_eq_square)
  have "T * T \<le> 2 ^ 250 * 2 ^ 250"
    using assms(2) T by (intro mult_mono) simp_all
  also have "\<dots> = (2::real) ^ 500" by (simp flip: power_add)
  finally have hi: "T\<^sup>2 \<le> 2 ^ 500" by (simp add: power2_eq_square)
  have c1: "1 \<le> 9.81 / (2 * pi)" using pi_upper by (simp add: field_simps)
  have c2: "9.81 / (2 * pi) \<le> 2" using pi_lower by (simp add: field_simps)
  have eq: "9.81 * T\<^sup>2 / (2 * pi) = 9.81 / (2 * pi) * T\<^sup>2" by simp
  have "1 * T\<^sup>2 \<le> 9.81 / (2 * pi) * T\<^sup>2" using c1 by (intro mult_right_mono) simp_all
  with lo show "2 powi (- 500) \<le> 9.81 * T\<^sup>2 / (2 * pi)" unfolding eq by linarith
  have "9.81 / (2 * pi) * T\<^sup>2 \<le> 2 * T\<^sup>2" using c2 by (intro mult_right_mono) simp_all
  moreover have "(2::real) * 2 ^ 500 = 2 ^ 501" by simp
  ultimately show "9.81 * T\<^sup>2 / (2 * pi) \<le> 2 ^ 501" unfolding eq using hi by linarith
  have "(2::real) powi (- 500) \<le> 2 powi (- 250)" by (intro power_int_increasing) simp_all
  with assms(1) show "2 powi (- 500) \<le> T" by linarith
  have "(2::real) ^ 250 \<le> 2 ^ 500" by simp
  with assms(2) show "T \<le> 2 ^ 500" by linarith
qed

lemma quotient_range:
  fixes T H :: real
  assumes "2 powi (- 250) \<le> T" "T \<le> 2 ^ 250" "2 powi (- 500) \<le> H" "H \<le> 2 ^ 500"
  shows "2 powi (- 1020) \<le> H / (9.81 * T\<^sup>2 / (2 * pi))"
    "H / (9.81 * T\<^sup>2 / (2 * pi)) \<le> 2 ^ 1020" "0 < H"
proof -
  note X = wavelength_range[OF assms(1,2)]
  have p: "(0::real) < 2 powi (- 500)" by simp
  with X(1) have Xpos: "0 < 9.81 * T\<^sup>2 / (2 * pi)" by linarith
  from p assms(3) show H: "0 < H" by linarith
  have "(2::real) powi (- 500) / 2 ^ 501 \<le> H / (9.81 * T\<^sup>2 / (2 * pi))"
    using assms(3) X(2) Xpos by (intro frac_le) simp_all
  moreover have "(2::real) powi (- 1020) \<le> 2 powi (- 500) / 2 ^ 501"
    by (simp add: power_int_minus field_simps)
  ultimately show "2 powi (- 1020) \<le> H / (9.81 * T\<^sup>2 / (2 * pi))" by linarith
  have "H / (9.81 * T\<^sup>2 / (2 * pi)) \<le> 2 ^ 500 / 2 powi (- 500)"
    using assms(4) X(1) H p by (intro frac_le) simp_all
  moreover have "(2::real) ^ 500 / 2 powi (- 500) \<le> 2 ^ 1020"
    by (simp add: power_int_minus field_simps)
  ultimately show "H / (9.81 * T\<^sup>2 / (2 * pi)) \<le> 2 ^ 1020" by linarith
qed

lemma slope_range:
  fixes b :: real
  assumes "2 powi (- 500) \<le> b" "b \<le> 2 ^ 500"
  shows "2 powi (- 510) \<le> b" "b \<le> 2 ^ 510"
proof -
  have "(2::real) powi (- 510) \<le> 2 powi (- 500)" by (intro power_int_increasing) simp_all
  with assms(1) show "2 powi (- 510) \<le> b" by linarith
  have "(2::real) ^ 500 \<le> 2 ^ 510" by simp
  with assms(2) show "b \<le> 2 ^ 510" by linarith
qed

section \<open>Values outside the domain\<close>

lemma normal_lower_margin: "(2::real) powi (- 1022) \<le> 2 powi (- 500) / 2 ^ 502"
proof -
  have "(2::real) powi (- 1022) = 2 powi (- 500) * 2 powi (- 522)"
    by (simp flip: power_int_add)
  moreover have "(2::real) powi (- 522) \<le> 2 powi (- 502)" by (intro power_int_increasing) simp_all
  moreover have "(2::real) powi (- 502) = 1 / 2 ^ 502" by (simp add: power_int_minus field_simps)
  moreover have "(0::real) < 2 powi (- 500)" by simp
  ultimately have "(2::real) powi (- 1022) \<le> 2 powi (- 500) * (1 / 2 ^ 502)"
    by (simp only: mult_left_mono less_imp_le)
  then show ?thesis by (simp only: times_divide_eq_right mult_1_right)
qed

lemma normal_upper_margin: "(2::real) ^ 500 / (2 powi (- 500) / 2) \<le> 2 ^ 1023"
proof -
  have "(2::real) powi (- 500) = 1 / 2 ^ 500" by (simp add: power_int_minus field_simps)
  then have "(2::real) ^ 500 / (2 powi (- 500) / 2) = 2 ^ 500 * 2 ^ 500 * 2"
    by (simp only: divide_divide_eq_left divide_divide_eq_right mult_1 mult.commute mult.assoc)
  also have "\<dots> = 2 ^ 1001" by (simp flip: power_add)
  also have "\<dots> \<le> 2 ^ 1023" by simp
  finally show ?thesis .
qed

lemma fdiv_NaN_right [simp]: "fdiv v NaN = NaN"
  by (simp add: fdiv_def)

lemma Lp_abs: "Lp (Fin (- T)) = Lp (Fin T)"
  by (simp add: Lp_def fpow2_def fmul_def)

lemma iribarrenNb_neg_period: "iribarrenNb (Fin (- T)) h b = iribarrenNb (Fin T) h b"
  by (simp add: iribarrenNb_def Lp_abs)

lemma iribarrenNb_neg_height:
  assumes T: "2 powi (- 250) \<le> \<bar>T\<bar>" "\<bar>T\<bar> \<le> 2 ^ 250"
    and H: "2 powi (- 500) \<le> - H" "- H \<le> 2 ^ 500"
  shows "iribarrenNb (Fin T) (Fin H) b = NaN"
proof -
  define X where "X = 9.81 * \<bar>T\<bar>\<^sup>2 / (2 * pi)"
  note W = wavelength_range[OF T]
  have X: "2 powi (- 500) \<le> X" "X \<le> 2 ^ 501"
    unfolding X_def by (rule W(1), rule W(2))
  have p: "(0::real) < 2 powi (- 500)" by simp
  with X(1) have Xpos: "0 < X" by linarith
  from p H(1) have Hneg: "H < 0" by linarith
  from Lp_chain[OF W(3,4)] obtain l where l: "Lp (Fin \<bar>T\<bar>) = Fin l" "0 < l"
    "rel_bounds (1 - 5 / 10 ^ 10) (1 + 5 / 10 ^ 10) X l" unfolding X_def by blast
  have "Lp (Fin \<bar>T\<bar>) = Lp (Fin T)" by (cases "0 \<le> T") (simp_all add: abs_if Lp_abs)
  with l(1) have L: "Lp (Fin T) = Fin l" by simp
  have lb: "(1 - 5 / 10 ^ 10) * X \<le> l" "l \<le> (1 + 5 / 10 ^ 10) * X"
    using l(3) by (simp_all add: rel_bounds_def)
  have "1 / 2 * X \<le> (1 - 5 / 10 ^ 10) * X" using Xpos by (intro mult_right_mono) simp_all
  with lb(1) X(1) have l1: "2 powi (- 500) / 2 \<le> l" by linarith
  have "(1 + 5 / 10 ^ 10) * X \<le> 2 * X" using Xpos by (intro mult_right_mono) simp_all
  moreover have "(2::real) * 2 ^ 501 = 2 ^ 502" by simp
  ultimately have l2: "l \<le> 2 ^ 502" using lb(2) X(2) by linarith
  have neg: "H / l < 0" by (rule divide_neg_pos[OF Hneg l(2)])
  have "- (H / l) = (- H) / l" by simp
  with neg have a: "\<bar>H / l\<bar> = (- H) / l" by linarith
  have Hpos: "0 \<le> - H" using Hneg by linarith
  have lpos: "0 < 2 powi (- 500) / (2::real)" by simp
  have n1: "2 powi (- 1022) \<le> \<bar>H / l\<bar>"
  proof -
    have "(2::real) powi (- 500) / 2 ^ 502 \<le> (- H) / l"
      by (rule frac_le[OF Hpos H(1) l(2) l2])
    with normal_lower_margin show ?thesis unfolding a by linarith
  qed
  have n2: "\<bar>H / l\<bar> \<le> 2 ^ 1023"
  proof -
    have "(- H) / l \<le> 2 ^ 500 / (2 powi (- 500) / 2)"
      by (rule frac_le[OF _ H(2) lpos l1]) simp
    with normal_upper_margin show ?thesis unfolding a by linarith
  qed
  from round64_normal[OF n1 n2] obtain q where q: "round64 (H / l) = Fin q"
    and s: "H / l < 0 \<longrightarrow> q < 0" by blast
  from s neg have qneg: "q < 0" by blast
  have Hne: "H \<noteq> 0" using Hneg by linarith
  have lne: "l \<noteq> 0" using l(2) by linarith
  have "fdiv (Fin H) (Fin l) = round64 (H / l)"
    by (rule fdiv_Fin[OF Hne lne])
  then have "fsqrt (fdiv (Fin H) (Lp (Fin T))) = NaN"
    using qneg by (simp only: L q fsqrt.simps if_True)
  then show ?thesis by (simp add: iribarrenNb_def)
qed

section \<open>Overflow of the wavelength\<close>

lemma round64_overflow:
  assumes "0 < x" "expo x = k" "2 ^ 1024 \<le> \<bar>rnd_at k x\<bar>"
  shows "round64 x = PInf"
  using assms by (simp add: round64_def Let_def)

lemma round64_2_1200: "round64 (2 ^ 1200) = PInf"
proof (rule round64_overflow)
  show "(0::real) < 2 ^ 1200" by simp
  show "expo (2 ^ 1200) = 1200" by (rule expo_eq) simp_all
  have "rnd_at 1200 (2 ^ 1200) = 2 ^ 1200"
    by (simp add: rnd_at_def rint_def)
  then show "2 ^ 1024 \<le> \<bar>rnd_at 1200 (2 ^ 1200)\<bar>" by simp
qed

lemma round64_2_1025: "round64 (4 * 2 ^ 1023) = PInf"
proof (rule round64_overflow)
  show "(0::real) < 4 * 2 ^ 1023" by simp
  show "expo (4 * 2 ^ 1023) = 1025" by (rule expo_eq) simp_all
  have "rnd_at 1025 (4 * 2 ^ 1023) = 2 ^ 1025"
    by (simp add: rnd_at_def rint_def)
  then show "2 ^ 1024 \<le> \<bar>rnd_at 1025 (4 * 2 ^ 1023)\<bar>" by simp
qed

lemma Lp_overflow: "Lp (Fin (2 ^ 600)) = PInf"
proof -
  have "fpow2 (Fin (2 ^ 600)) = round64 (2 ^ 600 * 2 ^ 600)"
    unfolding fpow2_def by (rule fmul_Fin) simp
  also have "(2::real) ^ 600 * 2 ^ 600 = 2 ^ 1200" by (simp flip: power_add)
  finally have s: "fpow2 (Fin (2 ^ 600)) = PInf" by (simp only: round64_2_1200)
  have "fmul (lit 9.81) PInf = PInf"
    by (simp only: lit_981) (simp add: fmul_def signed_inf_def)
  then show ?thesis
    unfolding Lp_def s two_np_pi by (simp add: fdiv_def signed_inf_def)
qed

section \<open>Scaling by powers of two\<close>

lemma float_double:
  assumes "round64 x = Fin x" "2 powi (- 1022) \<le> \<bar>x\<bar>" "\<bar>x\<bar> \<le> 2 ^ 1022"
  shows "round64 (2 * x) = Fin (2 * x)"
  using round64_scale2[OF assms(2,3,1)] .

lemma box_normal:
  fixes x :: real
  assumes "2 powi (- 500) \<le> x" "x \<le> 2 ^ 500"
  shows "2 powi (- 1022) \<le> \<bar>x\<bar>" "\<bar>x\<bar> \<le> 2 ^ 1021" "\<bar>2 * x\<bar> \<le> 2 ^ 1022"
    "2 powi (- 1022) \<le> \<bar>2 * x\<bar>" "0 < x"
proof -
  have p: "(0::real) < 2 powi (- 500)" by simp
  with assms(1) show x: "0 < x" by linarith
  have l: "(2::real) powi (- 1022) \<le> 2 powi (- 500)" by (intro power_int_increasing) simp_all
  have h: "(2::real) ^ 500 \<le> 2 ^ 1021" by simp
  have h2: "(2::real) ^ 1022 = 2 * 2 ^ 1021" by simp
  from l assms(1) x show "2 powi (- 1022) \<le> \<bar>x\<bar>" by linarith
  from h assms(2) x show "\<bar>x\<bar> \<le> 2 ^ 1021" by linarith
  from h h2 assms(2) x show "\<bar>2 * x\<bar> \<le> 2 ^ 1022" by linarith
  from l assms(1) x show "2 powi (- 1022) \<le> \<bar>2 * x\<bar>" by linarith
qed

lemma mid_normal:
  fixes x :: real
  assumes "2 powi (- 1021) \<le> x" "x \<le> 2 ^ 1021"
  shows "2 powi (- 1022) \<le> \<bar>x\<bar>" "\<bar>x\<bar> \<le> 2 ^ 1022" "\<bar>x\<bar> \<le> 2 ^ 1023"
    "2 powi (- 1021) \<le> \<bar>x\<bar>" "2 powi (- 1022) \<le> \<bar>2 * x\<bar>" "\<bar>2 * x\<bar> \<le> 2 ^ 1022" "0 < x"
proof -
  have p: "(0::real) < 2 powi (- 1021)" by simp
  with assms(1) show x: "0 < x" by linarith
  have l: "(2::real) powi (- 1022) \<le> 2 powi (- 1021)" by (intro power_int_increasing) simp_all
  have h: "(2::real) ^ 1021 \<le> 2 ^ 1022" "(2::real) ^ 1021 \<le> 2 ^ 1023" by simp_all
  have h2: "(2::real) ^ 1022 = 2 * 2 ^ 1021" by simp
  from l assms(1) x show "2 powi (- 1022) \<le> \<bar>x\<bar>" by linarith
  from h assms(2) x show "\<bar>x\<bar> \<le> 2 ^ 1022" by linarith
  from h assms(2) x show "\<bar>x\<bar> \<le> 2 ^ 1023" by linarith
  from assms(1) x show "2 powi (- 1021) \<le> \<bar>x\<bar>" by linarith
  from l assms(1) x show "2 powi (- 1022) \<le> \<bar>2 * x\<bar>" by linarith
  from h2 assms(2) x show "\<bar>2 * x\<bar> \<le> 2 ^ 1022" by linarith
qed

lemma box_chain:
  assumes T: "2 powi (- 250) \<le> T" "T \<le> 2 ^ 250"
    and H: "2 powi (- 500) \<le> H" "H \<le> 2 ^ 500"
    and B: "2 powi (- 500) \<le> b" "b \<le> 2 ^ 500"
  obtains l q s r where
    "Lp (Fin T) = Fin l" "0 < l" "round64 (H / l) = Fin q" "0 < q"
    "round64 (sqrt q) = Fin s" "0 < s" "round64 (b / s) = Fin r" "0 < r"
    "2 powi (- 1021) \<le> H / l" "H / l \<le> 2 ^ 1021"
    "2 powi (- 1021) \<le> sqrt q" "sqrt q \<le> 2 ^ 1021"
    "2 powi (- 1021) \<le> b / s" "b / s \<le> 2 ^ 1021"
    "2 powi (- 1021) \<le> r" "r \<le> 2 ^ 1021"
    "iribarrenNb (Fin T) (Fin H) (Fin b) = Fin r"
    "rel_bounds (1 - 1 / 10 ^ 9) (1 + 1 / 10 ^ 9) (b / sqrt (H / (9.81 * T\<^sup>2 / (2 * pi)))) r"
proof -
  note W = wavelength_range[OF T]
  note Q = quotient_range[OF T H]
  note S = slope_range[OF B]
  show thesis
  proof (rule root_chain[OF W(3,4) Q(3) Q(1,2)])
    fix l q s
    assume c: "Lp (Fin T) = Fin l" "0 < l" "round64 (H / l) = Fin q" "0 < q"
      "round64 (sqrt q) = Fin s" "0 < s"
      "2 powi (- 1021) \<le> H / l" "H / l \<le> 2 ^ 1021"
      "2 powi (- 1021) \<le> sqrt q" "sqrt q \<le> 2 ^ 1021"
      "fsqrt (fdiv (Fin H) (Lp (Fin T))) = Fin s"
    show thesis
    proof (rule quotient_chain[OF W(3,4) Q(3) Q(1,2) S])
      fix s' r
      assume d: "fsqrt (fdiv (Fin H) (Lp (Fin T))) = Fin s'"
        "round64 (b / s') = Fin r" "0 < r"
        "rel_bounds (1 - 1 / 10 ^ 9) (1 + 1 / 10 ^ 9)
           (b / sqrt (H / (9.81 * T\<^sup>2 / (2 * pi)))) r"
        "iribarrenNb (Fin T) (Fin H) (Fin b) = Fin r"
        "2 powi (- 1021) \<le> b / s'" "b / s' \<le> 2 ^ 1021"
        "2 powi (- 1021) \<le> r" "r \<le> 2 ^ 1021"
      from c(11) d(1) have e: "s' = s" by simp
      show thesis
        using that[OF c(1-6) d(2)[unfolded e] d(3) c(7-10) d(6,7)[unfolded e] d(8,9) d(5) d(4)] .
    qed
  qed
qed

lemma iribarrenNb_double_slope:
  assumes T: "2 powi (- 250) \<le> T" "T \<le> 2 ^ 250"
    and H: "2 powi (- 500) \<le> H" "H \<le> 2 ^ 500"
    and B: "2 powi (- 500) \<le> b" "b \<le> 2 ^ 500" and fb: "round64 b = Fin b"
  shows "iribarrenNb (Fin T) (Fin H) (fmul (Fin 2) (Fin b)) =
           fmul (Fin 2) (iribarrenNb (Fin T) (Fin H) (Fin b))"
proof (rule box_chain[OF T H B])
  fix l q s r
  assume c: "Lp (Fin T) = Fin l" "0 < l" "round64 (H / l) = Fin q" "0 < q"
    "round64 (sqrt q) = Fin s" "0 < s" "round64 (b / s) = Fin r" "0 < r"
    "2 powi (- 1021) \<le> b / s" "b / s \<le> 2 ^ 1021"
    "iribarrenNb (Fin T) (Fin H) (Fin b) = Fin r"
  note nb = box_normal[OF B]
  note nq = mid_normal[OF c(9,10)]
  have b2: "fmul (Fin 2) (Fin b) = Fin (2 * b)"
  proof -
    have "fmul (Fin 2) (Fin b) = round64 (2 * b)" using nb(5) by (intro fmul_Fin) simp
    also have "\<dots> = Fin (2 * b)"
    proof (rule float_double[OF fb nb(1)])
      have "(2::real) ^ 1021 \<le> 2 ^ 1022" by simp
      with nb(2) show "\<bar>b\<bar> \<le> 2 ^ 1022" by linarith
    qed
    finally show ?thesis .
  qed
  have root: "fsqrt (fdiv (Fin H) (Lp (Fin T))) = Fin s"
  proof -
    have "0 < H" using box_normal(5)[OF H] .
    then have "fdiv (Fin H) (Fin l) = round64 (H / l)" using c(2) by (intro fdiv_Fin) simp_all
    then show ?thesis using c(4) by (simp only: c(1) c(3) fsqrt_Fin[OF less_imp_le[OF c(4)]] c(5))
  qed
  have "iribarrenNb (Fin T) (Fin H) (Fin (2 * b)) = fdiv (Fin (2 * b)) (Fin s)"
    by (simp only: iribarrenNb_def Let_def root)
  also have "\<dots> = round64 (2 * b / s)" using nb(5) c(6) by (intro fdiv_Fin) simp_all
  also have "2 * b / s = 2 * (b / s)" by simp
  also have "round64 (2 * (b / s)) = Fin (2 * r)"
    by (rule round64_scale2[OF nq(1,2) c(7)])
  finally have lhs: "iribarrenNb (Fin T) (Fin H) (Fin (2 * b)) = Fin (2 * r)" .
  have rr: "round64 r = Fin r" by (rule round64_idem[OF nq(1,3) c(7)])
  have "2 powi (- 1021) \<le> r \<and> r \<le> 2 ^ 1021"
  proof (rule quotient_chain[OF wavelength_range(3,4)[OF T] quotient_range(3)[OF T H]
        quotient_range(1,2)[OF T H] slope_range[OF B]])
    fix s' r'
    assume d: "iribarrenNb (Fin T) (Fin H) (Fin b) = Fin r'"
      "2 powi (- 1021) \<le> r'" "r' \<le> 2 ^ 1021"
    from d(1) c(11) have "r' = r" by simp
    with d(2,3) show ?thesis by simp
  qed
  then have nr: "2 powi (- 1022) \<le> \<bar>r\<bar>" "\<bar>r\<bar> \<le> 2 ^ 1022"
    using mid_normal(1,2)[of r] by blast+
  have "fmul (Fin 2) (Fin r) = round64 (2 * r)" using c(8) by (intro fmul_Fin) simp
  also have "\<dots> = Fin (2 * r)" by (rule float_double[OF rr nr])
  finally have rhs: "fmul (Fin 2) (Fin r) = Fin (2 * r)" .
  show ?thesis by (simp only: b2 lhs c(11) rhs)
qed

lemma iribarrenNb_quadruple_height:
  assumes T: "2 powi (- 250) \<le> T" "T \<le> 2 ^ 250"
    and H: "2 powi (- 500) \<le> H" "H \<le> 2 ^ 500" and fH: "round64 H = Fin H"
    and B: "2 powi (- 500) \<le> b" "b \<le> 2 ^ 500"
  shows "iribarrenNb (Fin T) (fmul (Fin 4) (Fin H)) (Fin b) =
           fdiv (iribarrenNb (Fin T) (Fin H) (Fin b)) (Fin 2)"
proof (rule box_chain[OF T H B])
  fix l q s r
  assume c: "Lp (Fin T) = Fin l" "0 < l" "round64 (H / l) = Fin q" "0 < q"
    "round64 (sqrt q) = Fin s" "0 < s" "round64 (b / s) = Fin r" "0 < r"
    "2 powi (- 1021) \<le> H / l" "H / l \<le> 2 ^ 1021"
    "2 powi (- 1021) \<le> sqrt q" "sqrt q \<le> 2 ^ 1021"
    "2 powi (- 1021) \<le> b / s" "b / s \<le> 2 ^ 1021"
    "2 powi (- 1021) \<le> r" "r \<le> 2 ^ 1021"
    "iribarrenNb (Fin T) (Fin H) (Fin b) = Fin r"
  note nH = box_normal[OF H]
  note nb = box_normal[OF B]
  note nh = mid_normal[OF c(9,10)]
  note ns = mid_normal[OF c(11,12)]
  note nq = mid_normal[OF c(13,14)]
  note nr = mid_normal[OF c(15,16)]
  have h2: "round64 (2 * H) = Fin (2 * H)"
  proof (rule float_double[OF fH nH(1)])
    have "(2::real) ^ 1021 \<le> 2 ^ 1022" by simp
    with nH(2) show "\<bar>H\<bar> \<le> 2 ^ 1022" by linarith
  qed
  have "round64 (2 * (2 * H)) = Fin (2 * (2 * H))"
    by (rule float_double[OF h2 nH(4,3)])
  moreover have "2 * (2 * H) = 4 * H" by simp
  ultimately have h4: "round64 (4 * H) = Fin (4 * H)" by simp
  have H4: "fmul (Fin 4) (Fin H) = Fin (4 * H)"
  proof -
    have "fmul (Fin 4) (Fin H) = round64 (4 * H)" using nH(5) by (intro fmul_Fin) simp
    then show ?thesis by (simp only: h4)
  qed
  have q2: "round64 (2 * (H / l)) = Fin (2 * q)"
    by (rule round64_scale2[OF nh(1,2) c(3)])
  have "round64 (2 * (2 * (H / l))) = Fin (2 * (2 * q))"
    by (rule round64_scale2[OF nh(5,6) q2])
  moreover have "2 * (2 * (H / l)) = 4 * H / l" by simp
  moreover have "2 * (2 * q) = 4 * q" by simp
  ultimately have q4: "round64 (4 * H / l) = Fin (4 * q)" by simp
  have d1: "fdiv (Fin (4 * H)) (Fin l) = Fin (4 * q)"
  proof -
    have "fdiv (Fin (4 * H)) (Fin l) = round64 (4 * H / l)"
      using nH(5) c(2) by (intro fdiv_Fin) simp_all
    then show ?thesis by (simp only: q4)
  qed
  have "sqrt (4 * q) = 2 * sqrt q"
    using real_sqrt_mult[of 4 q] by simp
  moreover have "round64 (2 * sqrt q) = Fin (2 * s)"
    by (rule round64_scale2[OF ns(1,2) c(5)])
  ultimately have s2: "round64 (sqrt (4 * q)) = Fin (2 * s)" by simp
  have d2: "fsqrt (Fin (4 * q)) = Fin (2 * s)"
  proof -
    have "fsqrt (Fin (4 * q)) = round64 (sqrt (4 * q))" using c(4) by (intro fsqrt_Fin) simp
    then show ?thesis by (simp only: s2)
  qed
  have r2: "round64 (b / s / 2) = Fin (r / 2)"
    by (rule round64_half[OF nq(4,3) c(7)])
  have d3: "fdiv (Fin b) (Fin (2 * s)) = Fin (r / 2)"
  proof -
    have "fdiv (Fin b) (Fin (2 * s)) = round64 (b / (2 * s))"
      using nb(5) c(6) by (intro fdiv_Fin) simp_all
    moreover have "b / (2 * s) = b / s / 2" by simp
    ultimately show ?thesis by (simp only: r2)
  qed
  have lhs: "iribarrenNb (Fin T) (fmul (Fin 4) (Fin H)) (Fin b) = Fin (r / 2)"
    by (simp only: iribarrenNb_def Let_def H4 c(1) d1 d2 d3)
  have rr: "round64 r = Fin r" by (rule round64_idem[OF nq(1,3) c(7)])
  have "round64 (r / 2) = Fin (r / 2)"
    by (rule round64_half[OF nr(4,3) rr])
  moreover have "fdiv (Fin r) (Fin 2) = round64 (r / 2)"
    using c(8) by (intro fdiv_Fin) simp_all
  ultimately have rhs: "fdiv (Fin r) (Fin 2) = Fin (r / 2)" by simp
  show ?thesis by (simp only: lhs c(17) rhs)
qed

lemma float_quadruple:
  assumes H: "2 powi (- 500) \<le> H" "H \<le> 2 ^ 500" and fH: "round64 H = Fin H"
  shows "fmul (Fin 4) (Fin H) = Fin (4 * H)"
proof -
  note nH = box_normal[OF H]
  have h2: "round64 (2 * H) = Fin (2 * H)"
  proof (rule float_double[OF fH nH(1)])
    have "(2::real) ^ 1021 \<le> 2 ^ 1022" by simp
    with nH(2) show "\<bar>H\<bar> \<le> 2 ^ 1022" by linarith
  qed
  have "round64 (2 * (2 * H)) = Fin (2 * (2 * H))"
    by (rule float_double[OF h2 nH(4,3)])
  moreover have "2 * (2 * H) = 4 * H" by simp
  ultimately have h4: "round64 (4 * H) = Fin (4 * H)" by simp
  have "fmul (Fin 4) (Fin H) = round64 (4 * H)" using nH(5) by (intro fmul_Fin) simp
  then show ?thesis by (simp only: h4)
qed

lemma root_positive:
  assumes T: "2 powi (- 250) \<le> T" "T \<le> 2 ^ 250"
    and H: "2 powi (- 500) \<le> H" "H \<le> 2 ^ 500"
  shows "\<exists>s. fsqrt (fdiv (Fin H) (Lp (Fin T))) = Fin s \<and> 0 < s"
proof (rule root_chain[OF wavelength_range(3,4)[OF T] quotient_range(3)[OF T H]
      quotient_range(1,2)[OF T H]])
  fix l q s
  assume "fsqrt (fdiv (Fin H) (Lp (Fin T))) = Fin s" "0 < s"
  then show ?thesis by blast
qed

lemma iribarrenNb_zero_slope:
  assumes T: "2 powi (- 250) \<le> T" "T \<le> 2 ^ 250"
    and H: "2 powi (- 500) \<le> H" "H \<le> 2 ^ 500"
  shows "iribarrenNb (Fin T) (Fin H) (Fin 0) = Fin 0"
proof -
  from root_positive[OF T H] obtain s where
    s: "fsqrt (fdiv (Fin H) (Lp (Fin T))) = Fin s" "0 < s" by blast
  have "fdiv (Fin 0) (Fin s) = Fin 0"
    using s(2) by (simp add: fdiv_def round_to_def signed_zero_def)
  then show ?thesis by (simp only: iribarrenNb_def Let_def s(1))
qed

lemma iribarrenNb_zero_slope_scaling:
  assumes T: "2 powi (- 250) \<le> T" "T \<le> 2 ^ 250"
    and H: "2 powi (- 500) \<le> H" "H \<le> 2 ^ 500" and fH: "round64 H = Fin H"
  shows "iribarrenNb (Fin T) (Fin H) (fmul (Fin 2) (Fin 0)) =
           fmul (Fin 2) (iribarrenNb (Fin T) (Fin H) (Fin 0))"
    "iribarrenNb (Fin T) (fmul (Fin 4) (Fin H)) (Fin 0) =
           fdiv (iribarrenNb (Fin T) (Fin H) (Fin 0)) (Fin 2)"
proof -
  have z: "fmul (Fin 2) (Fin 0) = Fin 0"
    by (simp add: fmul_def round_to_def signed_zero_def)
  have z2: "fdiv (Fin 0) (Fin 2) = Fin 0"
    by (simp add: fdiv_def round_to_def signed_zero_def)
  note e = iribarrenNb_zero_slope[OF T H]
  show "iribarrenNb (Fin T) (Fin H) (fmul (Fin 2) (Fin 0)) =
           fmul (Fin 2) (iribarrenNb (Fin T) (Fin H) (Fin 0))"
    by (simp only: z e)
  have H4: "fmul (Fin 4) (Fin H) = Fin (4 * H)" by (rule float_quadruple[OF H fH])
  have l4: "2 powi (- 500) \<le> 4 * H" using H(1) box_normal(5)[OF H] by linarith
  show "iribarrenNb (Fin T) (fmul (Fin 4) (Fin H)) (Fin 0) =
           fdiv (iribarrenNb (Fin T) (Fin H) (Fin 0)) (Fin 2)"
  proof -
    have "\<exists>s. fsqrt (fdiv (Fin (4 * H)) (Lp (Fin T))) = Fin s \<and> 0 < s"
    proof (rule box_chain[OF T H H])
      fix l q s r
      assume c: "Lp (Fin T) = Fin l" "0 < l" "round64 (H / l) = Fin q" "0 < q"
        "round64 (sqrt q) = Fin s" "0 < s"
        "2 powi (- 1021) \<le> H / l" "H / l \<le> 2 ^ 1021"
        "2 powi (- 1021) \<le> sqrt q" "sqrt q \<le> 2 ^ 1021"
      note nh = mid_normal[OF c(7,8)]
      note ns = mid_normal[OF c(9,10)]
      have q2: "round64 (2 * (H / l)) = Fin (2 * q)"
        by (rule round64_scale2[OF nh(1,2) c(3)])
      have "round64 (2 * (2 * (H / l))) = Fin (2 * (2 * q))"
        by (rule round64_scale2[OF nh(5,6) q2])
      moreover have "2 * (2 * (H / l)) = 4 * H / l" by simp
      moreover have "2 * (2 * q) = 4 * q" by simp
      ultimately have q4: "round64 (4 * H / l) = Fin (4 * q)" by simp
      have d1: "fdiv (Fin (4 * H)) (Fin l) = Fin (4 * q)"
      proof -
        have "fdiv (Fin (4 * H)) (Fin l) = round64 (4 * H / l)"
          using box_normal(5)[OF H] c(2) by (intro fdiv_Fin) simp_all
        then show ?thesis by (simp only: q4)
      qed
      have "sqrt (4 * q) = 2 * sqrt q"
        using real_sqrt_mult[of 4 q] by simp
      moreover have "round64 (2 * sqrt q) = Fin (2 * s)"
        by (rule round64_scale2[OF ns(1,2) c(5)])
      ultimately have s2: "round64 (sqrt (4 * q)) = Fin (2 * s)" by simp
      have "fsqrt (Fin (4 * q)) = round64 (sqrt (4 * q))" using c(4) by (intro fsqrt_Fin) simp
      then have "fsqrt (fdiv (Fin (4 * H)) (Lp (Fin T))) = Fin (2 * s)"
        by (simp only: c(1) d1 s2)
      with c(6) show ?thesis by simp
    qed
    then obtain s where s: "fsqrt (fdiv (Fin (4 * H)) (Lp (Fin T))) = Fin s" "0 < s" by blast
    have "fdiv (Fin 0) (Fin s) = Fin 0"
      using s(2) by (simp add: fdiv_def round_to_def signed_zero_def)
    then have lhs: "iribarrenNb (Fin T) (Fin (4 * H)) (Fin 0) = Fin 0"
      by (simp only: iribarrenNb_def Let_def s(1))
    show ?thesis by (simp only: H4 lhs e z2)
  qed
qed

section \<open>The end-to-end scenario\<close>

lemma lit_981_n: "lit (981 / 100) = Fin (5522539043063071 / 2 ^ 49)"
  using lit_981 by simp

lemma lit_005_n: "lit (1 / 20) = Fin (3602879701896397 / 2 ^ 56)"
  using lit_005 by simp

lemma lit_12_n: "lit (6 / 5) = Fin (5404319552844595 / 2 ^ 52)"
  using lit_12 by simp

lemma lit_06_n: "lit (3 / 5) = Fin (5404319552844595 / 2 ^ 53)"
  using lit_06 by simp

lemma in_box:
  fixes x :: real
  assumes "1 / 1024 \<le> x" "x \<le> 1024"
  shows "2 powi (- 250) \<le> x" "x \<le> 2 ^ 250" "2 powi (- 500) \<le> x" "x \<le> 2 ^ 500"
proof -
  have e: "(2::real) powi (- 10) = 1 / 1024" by (simp add: power_int_minus)
  have "(2::real) powi (- 250) \<le> 2 powi (- 10)" by (intro power_int_increasing) simp_all
  with assms(1) e show "2 powi (- 250) \<le> x" by linarith
  have "(2::real) powi (- 500) \<le> 2 powi (- 10)" by (intro power_int_increasing) simp_all
  with assms(1) e show "2 powi (- 500) \<le> x" by linarith
  have "(2::real) ^ 10 \<le> 2 ^ 250" by (rule power_increasing) simp_all
  moreover have "(2::real) ^ 10 = 1024" by simp
  ultimately show "x \<le> 2 ^ 250" using assms(2) by linarith
  have "(2::real) ^ 10 \<le> 2 ^ 500" by (rule power_increasing) simp_all
  moreover have "(2::real) ^ 10 = 1024" by simp
  ultimately show "x \<le> 2 ^ 500" using assms(2) by linarith
qed

lemma scenario_exact:
  "0.353418 < 3602879701896397 / 2 ^ 56 / sqrt (2 / (9.81 * 8\<^sup>2 / (2 * pi)))"
  "3602879701896397 / 2 ^ 56 / sqrt (2 / (9.81 * 8\<^sup>2 / (2 * pi))) < 0.353419"
proof -
  define c :: real where "c = 3602879701896397 / 2 ^ 56"
  define q :: real where "q = 2 / (9.81 * 8\<^sup>2 / (2 * pi))"
  have c: "0 < c" by (simp add: c_def)
  have q: "q = pi / 156.96" by (simp add: q_def)
  have qpos: "0 < q" by (simp add: q)
  have up: "sqrt q < c / 0.353418"
  proof (rule real_less_lsqrt)
    show "0 \<le> c / 0.353418" using c by simp
    have "pi / 156.96 < (3602879701896397 / 2 ^ 56 / 0.353418)\<^sup>2"
      using pi_upper by (simp add: power_divide field_simps)
    then show "q < (c / 0.353418)\<^sup>2" by (simp only: q c_def)
  qed
  have lo: "c / 0.353419 < sqrt q"
  proof (rule real_less_rsqrt)
    have "(3602879701896397 / 2 ^ 56 / 0.353419)\<^sup>2 < pi / 156.96"
      using pi_lower by (simp add: power_divide field_simps)
    then show "(c / 0.353419)\<^sup>2 < q" by (simp only: q c_def)
  qed
  have spos: "0 < sqrt q" using qpos by simp
  have "0.353418 < c / sqrt q"
    using up spos by (simp add: field_simps)
  then show "0.353418 < 3602879701896397 / 2 ^ 56 / sqrt (2 / (9.81 * 8\<^sup>2 / (2 * pi)))"
    by (simp only: c_def q_def)
  have "c / sqrt q < 0.353419"
    using lo spos by (simp add: field_simps)
  then show "3602879701896397 / 2 ^ 56 / sqrt (2 / (9.81 * 8\<^sup>2 / (2 * pi))) < 0.353419"
    by (simp only: c_def q_def)
qed

lemma scenario_value:
  "\<exists>e. iribarrenNb (lit 8.0) (lit 2.0) (lit 0.05) = Fin e \<and> 0.35341 < e \<and> e < 0.35343"
proof -
  define c :: real where "c = 3602879701896397 / 2 ^ 56"
  define E :: real where "E = c / sqrt (2 / (9.81 * 8\<^sup>2 / (2 * pi)))"
  have E: "0.353418 < E" "E < 0.353419"
    using scenario_exact by (simp_all only: E_def c_def)
  have cb: "1 / 1024 \<le> c" "c \<le> 1024" by (simp_all add: c_def)
  have l: "lit 8.0 = Fin 8" "lit 2.0 = Fin 2" "lit 0.05 = Fin c"
    using lit_8 lit_2 lit_005 by (simp_all add: c_def)
  have "\<exists>r. iribarrenNb (Fin 8) (Fin 2) (Fin c) = Fin r \<and>
            rel_bounds (1 - 1 / 10 ^ 9) (1 + 1 / 10 ^ 9) E r"
  proof (rule box_chain[of 8 2 c])
    show "2 powi (- 250) \<le> (8::real)" "(8::real) \<le> 2 ^ 250"
      by (rule in_box; simp)+
    show "2 powi (- 500) \<le> (2::real)" "(2::real) \<le> 2 ^ 500"
      by (rule in_box; simp)+
    show "2 powi (- 500) \<le> c" "c \<le> 2 ^ 500"
      by (rule in_box[OF cb])+
  next
    fix l q s r
    assume "iribarrenNb (Fin 8) (Fin 2) (Fin c) = Fin r"
      "rel_bounds (1 - 1 / 10 ^ 9) (1 + 1 / 10 ^ 9) (c / sqrt (2 / (9.81 * 8\<^sup>2 / (2 * pi)))) r"
    then show ?thesis unfolding E_def by blast
  qed
  then obtain r where r: "iribarrenNb (Fin 8) (Fin 2) (Fin c) = Fin r"
    "(1 - 1 / 10 ^ 9) * E \<le> r" "r \<le> (1 + 1 / 10 ^ 9) * E"
    by (auto simp: rel_bounds_def)
  from r(2) E(1) have "0.35341 < r" by simp
  moreover from r(3) E(2) have "r < 0.35343" by simp
  ultimately show ?thesis using r(1) by (simp only: l) blast
qed

lemma scenario_ratio: "fdiv (lit 1.2) (lit 2.0) = lit 0.6"
proof -
  have r: "round64 (5404319552844595 / 2 ^ 53) = Fin (5404319552844595 / 2 ^ 53)"
    by (rule round64_eval[where k = "- 1"]) (simp_all add: rnd_at_def rint_def power_int_minus)
  have "fdiv (Fin (5404319552844595 / 2 ^ 52)) (Fin 2) = round64 (5404319552844595 / 2 ^ 52 / 2)"
    by (rule fdiv_Fin) simp_all
  also have "(5404319552844595 / 2 ^ 52 / 2 :: real) = 5404319552844595 / 2 ^ 53" by simp
  finally have "fdiv (Fin (5404319552844595 / 2 ^ 52)) (Fin 2) = Fin (5404319552844595 / 2 ^ 53)"
    by (simp only: r)
  moreover have "lit 2.0 = Fin 2" using lit_2 by simp
  ultimately show ?thesis by (simp only: lit_12 lit_06)
qed

section \<open>Overflow and underflow\<close>

lemma round64_underflow:
  assumes "0 < x" "x < 2 powi (- 1075)"
  shows "round64 x = Fin 0"
proof -
  have h: "(2::real) powi (- 1075) = 2 powi (- 1074) / 2"
    using two_powi_half[of "- 1022"] by simp
  have "(2::real) powi (- 1075) \<le> 2 powi (- 1022)" by (intro power_int_increasing) simp_all
  with assms have "\<bar>x\<bar> < 2 powi (- 1022)" by linarith
  with assms(1) have e: "expo x = - 1022" by (intro expo_subnormal) simp_all
  define u where "u = x / 2 powi (- 1074)"
  have p: "(0::real) < 2 powi (- 1074)" by simp
  have u: "0 < u" "u < 1 / 2"
  proof -
    show "0 < u" unfolding u_def using assms(1) p by (rule divide_pos_pos)
    have "x < 2 powi (- 1074) / 2" using assms(2) h by linarith
    then have "x / 2 powi (- 1074) < (2 powi (- 1074) / 2) / 2 powi (- 1074)"
      using p by (rule divide_strict_right_mono)
    also have "\<dots> = 1 / 2" using p by simp
    finally show "u < 1 / 2" by (simp only: u_def)
  qed
  have f: "\<lfloor>u\<rfloor> = 0" using u by (intro floor_unique) simp_all
  have "rint u = 0" using u by (simp add: rint_def f)
  then have "rnd_at (- 1022) x = 0" by (simp add: rnd_at_def u_def)
  then show ?thesis using assms(1) by (simp add: round64_def e)
qed

lemma Lp_underflow: "Lp (Fin (2 powi (- 600))) = Fin 0"
proof -
  have "fpow2 (Fin (2 powi (- 600))) = round64 (2 powi (- 600) * 2 powi (- 600))"
    unfolding fpow2_def by (rule fmul_Fin) simp
  also have "(2::real) powi (- 600) * 2 powi (- 600) = 2 powi (- 1200)"
    by (simp flip: power_int_add)
  also have "round64 (2 powi (- 1200)) = Fin 0"
  proof (rule round64_underflow)
    show "(0::real) < 2 powi (- 1200)" by simp
    show "(2::real) powi (- 1200) < 2 powi (- 1075)"
      by (intro power_int_strict_increasing) simp_all
  qed
  finally have s: "fpow2 (Fin (2 powi (- 600))) = Fin 0" .
  have m: "fmul (lit 9.81) (Fin 0) = Fin 0"
    by (simp only: lit_981) (simp add: fmul_def round_to_def signed_zero_def)
  show ?thesis
    unfolding Lp_def s m two_np_pi by (simp add: fdiv_def round_to_def signed_zero_def)
qed

lemma iribarrenNb_overflow:
  "iribarrenNb (Fin (2 ^ 600)) (lit 2.0) (lit 0.05) = PInf"
  "iribarrenNb (Fin (2 ^ 600)) (lit 2.0) (Fin 0) = NaN"
proof -
  have h: "lit 2.0 = Fin 2" using lit_2 by simp
  have q: "fdiv (Fin 2) PInf = Fin 0" by (simp add: fdiv_def signed_zero_def)
  have r: "fsqrt (Fin 0) = Fin 0" by (simp add: round64_def)
  have "fdiv (Fin (3602879701896397 / 2 ^ 56)) (Fin 0) = PInf"
    by (simp add: fdiv_def signed_inf_def)
  then show "iribarrenNb (Fin (2 ^ 600)) (lit 2.0) (lit 0.05) = PInf"
    by (simp only: iribarrenNb_def Let_def Lp_overflow h q r lit_005)
  have "fdiv (Fin 0) (Fin 0) = NaN" by (simp add: fdiv_def)
  then show "iribarrenNb (Fin (2 ^ 600)) (lit 2.0) (Fin 0) = NaN"
    by (simp only: iribarrenNb_def Let_def Lp_overflow h q r)
qed

lemma Lp_8: "\<exists>l. Lp (Fin 8) = Fin l \<and> 0 < l"
proof -
  have "2 powi (- 500) \<le> (8::real)" "(8::real) \<le> 2 ^ 500" by (rule in_box; simp)+
  from Lp_chain[OF this] show ?thesis by blast
qed

lemma quadruple_overflow:
  "iribarrenNb (Fin 8) (fmul (Fin 4) (Fin (2 ^ 1023))) (lit 0.05) = Fin 0"
proof -
  from Lp_8 obtain l where l: "Lp (Fin 8) = Fin l" "0 < l" by blast
  have "fmul (Fin 4) (Fin (2 ^ 1023)) = round64 (4 * 2 ^ 1023)" by (rule fmul_Fin) simp
  then have h: "fmul (Fin 4) (Fin (2 ^ 1023)) = PInf" by (simp only: round64_2_1025)
  have q: "fdiv PInf (Fin l) = PInf" using l(2) by (simp add: fdiv_def signed_inf_def)
  have r: "fsqrt PInf = PInf" by simp
  have "fdiv (Fin (3602879701896397 / 2 ^ 56)) PInf = Fin 0"
    by (simp add: fdiv_def signed_zero_def)
  then show ?thesis
    by (simp only: iribarrenNb_def Let_def h l(1) q r lit_005)
qed

lemma huge_height:
  "\<exists>r y. iribarrenNb (Fin 8) (Fin (2 ^ 1023)) (lit 0.05) = Fin r \<and>
         fdiv (Fin r) (Fin 2) = Fin y \<and> 0 < y"
proof -
  define c :: real where "c = 3602879701896397 / 2 ^ 56"
  define X :: real where "X = 9.81 * 8\<^sup>2 / (2 * pi)"
  have cb: "1 / 1024 \<le> c" "c \<le> 1024" by (simp_all add: c_def)
  have T: "2 powi (- 500) \<le> (8::real)" "(8::real) \<le> 2 ^ 500" by (rule in_box; simp)+
  have H: "(0::real) < 2 ^ 1023" by simp
  have X8: "8 \<le> X" using pi_upper by (simp add: X_def field_simps)
  have X1: "X \<le> 1024" using pi_lower by (simp add: X_def field_simps)
  have Xpos: "0 < X" using X8 by linarith
  have Q: "2 powi (- 1020) \<le> 2 ^ 1023 / X" "2 ^ 1023 / X \<le> 2 ^ 1020"
  proof -
    have "(2::real) ^ 1023 / 2 ^ 10 \<le> 2 ^ 1023 / X"
      using X1 Xpos by (intro divide_left_mono) simp_all
    moreover have "(2::real) ^ 1023 / 2 ^ 10 = 2 ^ 1013" by (simp add: power_diff)
    moreover have "(2::real) powi (- 1020) \<le> 2 powi 1013"
      by (intro power_int_increasing) simp_all
    moreover have "(2::real) powi 1013 = 2 ^ 1013" by simp
    ultimately show "2 powi (- 1020) \<le> 2 ^ 1023 / X" by linarith
    have "(2::real) ^ 1023 / X \<le> 2 ^ 1023 / 8"
      using X8 by (intro divide_left_mono) simp_all
    moreover have "(2::real) ^ 1023 / 8 = 2 ^ 1020" by simp
    ultimately show "2 ^ 1023 / X \<le> 2 ^ 1020" by linarith
  qed
  have B: "2 powi (- 510) \<le> c" "c \<le> 2 ^ 510"
    by (rule slope_range[OF in_box(3,4)[OF cb]])+
  have "\<exists>r. iribarrenNb (Fin 8) (Fin (2 ^ 1023)) (Fin c) = Fin r \<and>
            2 powi (- 1021) \<le> r \<and> r \<le> 2 ^ 1021"
  proof (rule quotient_chain[OF T H Q[unfolded X_def] B])
    fix s r
    assume "iribarrenNb (Fin 8) (Fin (2 ^ 1023)) (Fin c) = Fin r"
      "2 powi (- 1021) \<le> r" "r \<le> 2 ^ 1021"
    then show ?thesis by blast
  qed
  then obtain r where r: "iribarrenNb (Fin 8) (Fin (2 ^ 1023)) (Fin c) = Fin r"
    "2 powi (- 1021) \<le> r" "r \<le> 2 ^ 1021" by blast
  note nr = mid_normal[OF r(2,3)]
  have e: "(2::real) powi (- 1021) = 2 * 2 powi (- 1022)"
    using two_powi_Suc[of "- 1022"] by simp
  have lo: "2 powi (- 1022) \<le> \<bar>r / 2\<bar>" using r(2) nr(7) e by simp
  have "(2::real) ^ 1021 \<le> 2 ^ 1023" by simp
  with r(3) nr(7) have hi: "\<bar>r / 2\<bar> \<le> 2 ^ 1023" by simp
  from round64_normal[OF lo hi] nr(7) obtain y where y: "round64 (r / 2) = Fin y" "0 < y"
    by auto
  have "fdiv (Fin r) (Fin 2) = round64 (r / 2)" using nr(7) by (intro fdiv_Fin) simp_all
  with y r(1) show ?thesis by (simp only: lit_005 c_def) blast
qed

lemma float_2_1023: "round64 (2 ^ 1023) = Fin (2 ^ 1023)"
proof (rule round64_eval[where k = 1023])
  show "2 powi 1023 \<le> \<bar>(2::real) ^ 1023\<bar>" by simp
  have "(2::real) ^ 1023 < 2 ^ 1024" by simp
  then show "\<bar>(2::real) ^ 1023\<bar> < 2 powi (1023 + 1)" by simp
  show "- 1022 \<le> (1023::int)" by simp
  have "(2::real) ^ 1023 / 2 powi (1023 - 52) = 2 ^ 52"
    by (simp add: power_diff)
  then have "rint ((2::real) ^ 1023 / 2 powi (1023 - 52)) = 2 ^ 52"
    by (simp only: rint_def Let_def) simp
  then show "rnd_at 1023 ((2::real) ^ 1023) = 2 ^ 1023"
    by (simp only: rnd_at_def) (simp flip: power_add)
  show "\<bar>(2::real) ^ 1023\<bar> < 2 ^ 1024" by simp
qed

lemma float_powi:
  assumes "- 1022 \<le> k" "k \<le> 1023"
  shows "round64 (2 powi k) = Fin (2 powi k)"
proof (rule round64_eval[where k = k])
  have p: "(0::real) < 2 powi k" by simp
  show "2 powi k \<le> \<bar>(2::real) powi k\<bar>" by simp
  show "\<bar>(2::real) powi k\<bar> < 2 powi (k + 1)" using p by (simp add: two_powi_Suc)
  show "- 1022 \<le> k" by fact
  have "rnd_at k (of_int (2 ^ 52) * 2 powi (k - 52)) = of_int (2 ^ 52) * 2 powi (k - 52)"
    by (rule rnd_at_of_int)
  moreover have "(2::real) powi k = of_int (2 ^ 52) * 2 powi (k - 52)"
    using two_powi_split[of k] by simp
  ultimately show "rnd_at k (2 powi k) = 2 powi k" by simp
  have "(2::real) powi k \<le> 2 powi 1023" using assms(2) by (intro power_int_increasing) simp_all
  moreover have "(2::real) powi 1023 < 2 powi 1024" by (intro power_int_strict_increasing) simp_all
  moreover have "(2::real) powi 1024 = 2 ^ 1024" by simp
  ultimately show "\<bar>(2::real) powi k\<bar> < 2 ^ 1024" using p by linarith
qed

lemma float_2_600: "round64 (2 ^ 600) = Fin (2 ^ 600)"
  using float_powi[of 600] by simp

lemma float_2_m600: "round64 (2 powi (- 600)) = Fin (2 powi (- 600))"
  by (rule float_powi) simp_all

lemma float_005: "round64 (3602879701896397 / 2 ^ 56) = Fin (3602879701896397 / 2 ^ 56)"
  by (rule round64_eval[where k = "- 5"]) (simp_all add: rnd_at_def rint_def power_int_minus)

lemma float_2: "round64 2 = Fin 2"
  using lit_2 by (simp only: lit_def)

lemma rel_bounds_abs:
  assumes "rel_bounds (1 - d) (1 + d) X x"
  shows "\<bar>x - X\<bar> \<le> X * d"
proof -
  have "(1 - d) * X \<le> x" "x \<le> (1 + d) * X" using assms by (simp_all add: rel_bounds_def)
  then have "- (X * d) \<le> x - X" "x - X \<le> X * d" by (simp_all add: algebra_simps)
  then show ?thesis by (simp add: abs_le_iff)
qed

section \<open>Index sets and frames\<close>

lemma set_where_true: "set (where_true bs) = {i. i < length bs \<and> bs ! i}"
  by (auto simp: where_true_def)

lemma set_ids1: "set (ids1 ir) = {i. i < length ir \<and> fless (ir ! i) (Fin 0.5)}"
  by (auto simp: ids1_def set_where_true)

lemma set_ids2:
  "set (ids2 ir) = {i. i < length ir \<and> fge (ir ! i) (Fin 0.5) \<and> fless (ir ! i) (Fin 1.5)}"
  by (auto simp: ids2_def logical_and_def set_where_true)

lemma set_ids3: "set (ids3 ir) = {i. i < length ir \<and> fge (ir ! i) (Fin 1.5)}"
  by (auto simp: ids3_def set_where_true)

lemma fge_Fin_iff: "fge v (Fin a) = (v \<noteq> NaN \<and> \<not> fless v (Fin a))"
  by (cases v) simp_all

lemma fless_Fin_mono: "fless v (Fin a) \<Longrightarrow> a \<le> b \<Longrightarrow> fless v (Fin b)"
  by (cases v) simp_all

lemma setitem_fresh: "k \<notin> set (map fst df) \<Longrightarrow> setitem df k v = df @ [(k, v)]"
  by (induction df) auto

lemma map_of_setitem: "map_of (setitem df k v) k' = (if k' = k then Some v else map_of df k')"
  by (induction df) auto

lemma getcol_setitem_other: "k' \<noteq> k \<Longrightarrow> getcol (setitem df k v) k' = getcol df k'"
  by (simp add: getcol_def map_of_setitem)


lemma setitem_twice: "setitem (setitem df k v) k w = setitem df k w"
  by (induction df) auto



lemma append_iribarren_float:
  assumes "getcol df ''tp'' = Inr (Float64 Tp)" "getcol df ''hs'' = Inr (Float64 Hs)"
    "getcol df ''beta'' = Inr (Float64 B)"
  shows "append_iribarren df =
           Inr (setitem df ''iribarren'' (Float64 (iribarrenNb_series Tp Hs B)))"
  using assms by (simp add: append_iribarren_def)


lemma getcol_Inl: "getcol df k = Inl e \<Longrightarrow> e = AttributeError"
  by (simp add: getcol_def split: option.splits)

lemma as_float_Inl: "as_float c = Inl e \<Longrightarrow> e = TypeError"
  by (cases c) (simp_all split: if_splits)

lemma append_iribarren_errors:
  "append_iribarren df = Inl e \<Longrightarrow> e = AttributeError \<or> e = TypeError"
  by (auto simp: append_iribarren_def split: sum.splits dest: getcol_Inl as_float_Inl)

lemma append_iribarren_InrD:
  assumes "append_iribarren df = Inr df'"
  shows "\<exists>ir. df' = setitem df ''iribarren'' (Float64 ir)"
  using assms by (auto simp: append_iribarren_def split: sum.splits)

lemma take_idx_in_range:
  "\<forall>i\<in>set ids. i < length xs \<Longrightarrow> take_idx xs ids = Inr (map (\<lambda>i. xs ! i) ids)"
  by (induction ids) auto

lemma runup_ratio_float:
  assumes "getcol df ''r2'' = Inr (Float64 R)" "getcol df ''hs'' = Inr (Float64 Hs)"
    and "\<forall>i\<in>set ids. i < length R \<and> i < length Hs"
  shows "runup_ratio df ids = Inr (map (\<lambda>i. fdiv (R ! i) (Hs ! i)) ids)"
proof -
  have r: "take_idx R ids = Inr (map (\<lambda>i. R ! i) ids)"
    using assms(3) by (intro take_idx_in_range) auto
  have h: "take_idx Hs ids = Inr (map (\<lambda>i. Hs ! i) ids)"
    using assms(3) by (intro take_idx_in_range) auto
  have "map (\<lambda>(r, h). fdiv r h) (zip (map (\<lambda>i. R ! i) ids) (map (\<lambda>i. Hs ! i) ids)) =
        map (\<lambda>i. fdiv (R ! i) (Hs ! i)) ids"
    by (induction ids) simp_all
  then show ?thesis
    using assms(1,2) r h by (simp add: runup_ratio_def)
qed

lemma getcol_runup_frame:
  "getcol (runup_frame hs tp beta r2) ''hs'' = Inr (Float64 hs)"
  "getcol (runup_frame hs tp beta r2) ''tp'' = Inr (Float64 tp)"
  "getcol (runup_frame hs tp beta r2) ''beta'' = Inr (Float64 beta)"
  "getcol (runup_frame hs tp beta r2) ''r2'' = Inr (Float64 r2)"
  by (simp_all add: getcol_def runup_frame_def)

lemma names_runup_frame: "map fst (runup_frame hs tp beta r2) = names"
  by (simp add: runup_frame_def names_def)

lemma append_iribarren_runup_frame:
  "append_iribarren (runup_frame hs tp beta r2) =
     Inr (runup_frame hs tp beta r2 @ [(''iribarren'', Float64 (iribarrenNb_series tp hs beta))])"
proof -
  have "''iribarren'' \<notin> set (map fst (runup_frame hs tp beta r2))"
    by (simp add: names_runup_frame names_def)
  then show ?thesis
    by (simp add: append_iribarren_float[OF getcol_runup_frame(2,1,3)] setitem_fresh)
qed

lemma getcol_append_new:
  "k \<in> set (map fst df) \<Longrightarrow> getcol (df @ [(k', v)]) k = getcol df k"
  by (auto simp: getcol_def map_add_def split: option.splits dest: weak_map_of_SomeI
      simp flip: map_of_eq_None_iff)

lemma zip_take_length: "zip xs (take (length xs) ys) = zip xs ys"
proof (induction xs arbitrary: ys)
  case Nil
  show ?case by simp
next
  case (Cons a xs)
  then show ?case by (cases ys) simp_all
qed

lemma beach_type_Fin:
  assumes "i < length ir" "ir ! i = Fin x"
  shows "beach_type ir i =
           (if x < 0.5 then [''dissipative'']
            else if x < 1.5 then [''intermediate'']
            else [''reflective''])"
  using assms
  by (simp add: beach_type_def beach_groups_def set_ids1 set_ids2 set_ids3)

text \<open>
  The values that are not finite numbers: \<open>-0.0\<close> and minus infinity are below both
  breakpoints, plus infinity is above both, NaN is in no index set.
\<close>

lemma beach_type_special:
  assumes "i < length ir"
  shows "ir ! i = NZero \<Longrightarrow> beach_type ir i = [''dissipative'']"
    "ir ! i = NInf \<Longrightarrow> beach_type ir i = [''dissipative'']"
    "ir ! i = PInf \<Longrightarrow> beach_type ir i = [''reflective'']"
    "ir ! i = NaN \<Longrightarrow> beach_type ir i = []"
  using assms
  by (simp_all add: beach_type_def beach_groups_def set_ids1 set_ids2 set_ids3)

lemma ids1_single: "x < 0.5 \<Longrightarrow> ids1 [Fin x] = [0]"
  by (simp add: ids1_def where_true_def)

lemma scenario_frame:
  "\<exists>e. append_iribarren scenario = Inr (scenario @ [(''iribarren'', Float64 [Fin e])]) \<and>
       0.35341 < e \<and> e < 0.35343 \<and>
       beach_type [Fin e] 0 = [''dissipative''] \<and>
       runup_ratio (scenario @ [(''iribarren'', Float64 [Fin e])]) (ids1 [Fin e]) = Inr [lit 0.6]"
proof -
  from scenario_value obtain e where
    e: "iribarrenNb (lit 8.0) (lit 2.0) (lit 0.05) = Fin e" "0.35341 < e" "e < 0.35343"
    by blast
  let ?df = "scenario @ [(''iribarren'', Float64 [Fin e])]"
  have a: "append_iribarren scenario = Inr ?df"
    using e(1) by (simp add: scenario_def append_iribarren_runup_frame iribarrenNb_series_def)
  have b: "beach_type [Fin e] 0 = [''dissipative'']"
    using e(3) by (simp add: beach_type_Fin)
  have i: "ids1 [Fin e] = [0]" using e(3) by (simp add: ids1_single)
  have g: "getcol ?df ''r2'' = Inr (Float64 [lit 1.2])" "getcol ?df ''hs'' = Inr (Float64 [lit 2.0])"
    by (simp_all add: scenario_def getcol_append_new names_runup_frame names_def getcol_runup_frame)
  have "runup_ratio ?df [0] = Inr (map (\<lambda>i. fdiv ([lit 1.2] ! i) ([lit 2.0] ! i)) [0])"
    by (rule runup_ratio_float[OF g]) simp
  then have r: "runup_ratio ?df (ids1 [Fin e]) = Inr [lit 0.6]"
    using scenario_ratio by (simp add: i)
  from a e(2,3) b r show ?thesis by blast
qed

lemma iribarrenNb_neg2: "iribarrenNb (Fin 8) (Fin (- 2)) b = NaN"
proof (rule iribarrenNb_neg_height)
  show "2 powi (- 250) \<le> \<bar>8::real\<bar>" using in_box(1)[of 8] by simp
  show "\<bar>8::real\<bar> \<le> 2 ^ 250" using in_box(2)[of 8] by simp
  show "2 powi (- 500) \<le> - (- 2::real)" using in_box(3)[of 2] by simp
  show "- (- 2::real) \<le> 2 ^ 500" using in_box(4)[of 2] by simp
qed


section \<open>The claims\<close>

text \<open>
  C1. \<open>iribarrenNb\<close> returns the slope divided by the square root of the wave
  height over the wavelength that its first line computes, every operation being the
  float64 one. For a period between \<open>2\<^sup>-\<^sup>2\<^sup>5\<^sup>0\<close> and \<open>2\<^sup>2\<^sup>5\<^sup>0\<close> and a wave height and a
  slope between \<open>2\<^sup>-\<^sup>5\<^sup>0\<^sup>0\<close> and \<open>2\<^sup>5\<^sup>0\<^sup>0\<close> nothing overflows or underflows: the
  wavelength is within a relative error of \<open>10\<^sup>-\<^sup>9\<close> of \<open>9.81 * T\<^sup>2 / (2 * pi)\<close>, the
  result is a finite number within a relative error of \<open>10\<^sup>-\<^sup>9\<close> of
  \<open>b / sqrt (H / (9.81 * T\<^sup>2 / (2 * pi)))\<close>, and the slope 0 gives 0. On the row of
  the end-to-end scenario (\<open>hs = 2.0\<close>, \<open>tp = 8.0\<close>, \<open>beta = 0.05\<close>, \<open>r2 = 1.2\<close>)
  the stored Iribarren number lies between 0.35341 and 0.35343, that is 0.3534 to four
  decimals; the row is plotted as dissipative, and its run-up ratio is the float64 0.6.
\<close>

theorem iribarrenNb_formula:
  assumes "2 powi (- 250) \<le> T" "T \<le> 2 ^ 250"
    and "2 powi (- 500) \<le> H" "H \<le> 2 ^ 500"
    and "2 powi (- 500) \<le> b" "b \<le> 2 ^ 500"
  shows "(\<exists>l e. Lp (Fin T) = Fin l \<and>
              \<bar>l - 9.81 * T\<^sup>2 / (2 * pi)\<bar> \<le> 9.81 * T\<^sup>2 / (2 * pi) / 10 ^ 9 \<and>
              iribarrenNb (Fin T) (Fin H) (Fin b) = Fin e \<and>
              \<bar>e - b / sqrt (H / (9.81 * T\<^sup>2 / (2 * pi)))\<bar> \<le>
                b / sqrt (H / (9.81 * T\<^sup>2 / (2 * pi))) / 10 ^ 9) \<and>
         iribarrenNb (Fin T) (Fin H) (Fin 0) = Fin 0 \<and>
         (\<forall>Tp Hs beta. iribarrenNb Tp Hs beta = fdiv beta (fsqrt (fdiv Hs (Lp Tp)))) \<and>
         (\<exists>e. append_iribarren scenario = Inr (scenario @ [(''iribarren'', Float64 [Fin e])]) \<and>
              0.35341 < e \<and> e < 0.35343 \<and>
              beach_type [Fin e] 0 = [''dissipative''] \<and>
              runup_ratio (scenario @ [(''iribarren'', Float64 [Fin e])]) (ids1 [Fin e]) =
                Inr [lit 0.6])"
proof (intro conjI allI)
  define X where "X = 9.81 * T\<^sup>2 / (2 * pi)"
  note W = wavelength_range[OF assms(1,2)]
  have Xpos: "0 < X"
  proof -
    have "(0::real) < 2 powi (- 500)" by simp
    with W(1) show ?thesis unfolding X_def by linarith
  qed
  from Lp_chain[OF W(3,4)] obtain l where l: "Lp (Fin T) = Fin l"
    "rel_bounds (1 - 5 / 10 ^ 10) (1 + 5 / 10 ^ 10) X l" unfolding X_def by blast
  have "rel_bounds (1 - 1 / 10 ^ 9) (1 + 1 / 10 ^ 9) X l"
    using l(2) by (rule rel_bounds_weaken) (use Xpos in simp_all)
  then have lb: "\<bar>l - X\<bar> \<le> X / 10 ^ 9"
    using rel_bounds_abs[of "1 / 10 ^ 9" X l] by simp
  have "\<exists>e. iribarrenNb (Fin T) (Fin H) (Fin b) = Fin e \<and>
            rel_bounds (1 - 1 / 10 ^ 9) (1 + 1 / 10 ^ 9) (b / sqrt (H / X)) e"
  proof (rule box_chain[OF assms])
    fix l q s r
    assume "iribarrenNb (Fin T) (Fin H) (Fin b) = Fin r"
      "rel_bounds (1 - 1 / 10 ^ 9) (1 + 1 / 10 ^ 9)
         (b / sqrt (H / (9.81 * T\<^sup>2 / (2 * pi)))) r"
    then show ?thesis unfolding X_def by blast
  qed
  then obtain e where e: "iribarrenNb (Fin T) (Fin H) (Fin b) = Fin e"
    "rel_bounds (1 - 1 / 10 ^ 9) (1 + 1 / 10 ^ 9) (b / sqrt (H / X)) e" by blast
  have eb: "\<bar>e - b / sqrt (H / X)\<bar> \<le> b / sqrt (H / X) / 10 ^ 9"
    using rel_bounds_abs[OF e(2)] by simp
  from l(1) lb e(1) eb
  show "\<exists>l e. Lp (Fin T) = Fin l \<and>
              \<bar>l - 9.81 * T\<^sup>2 / (2 * pi)\<bar> \<le> 9.81 * T\<^sup>2 / (2 * pi) / 10 ^ 9 \<and>
              iribarrenNb (Fin T) (Fin H) (Fin b) = Fin e \<and>
              \<bar>e - b / sqrt (H / (9.81 * T\<^sup>2 / (2 * pi)))\<bar> \<le>
                b / sqrt (H / (9.81 * T\<^sup>2 / (2 * pi))) / 10 ^ 9"
    unfolding X_def by blast
  show "iribarrenNb (Fin T) (Fin H) (Fin 0) = Fin 0"
    by (rule iribarrenNb_zero_slope[OF assms(1-4)])
  show "iribarrenNb Tp Hs beta = fdiv beta (fsqrt (fdiv Hs (Lp Tp)))" for Tp Hs beta
    by (simp add: iribarrenNb_def)
  show "\<exists>e. append_iribarren scenario = Inr (scenario @ [(''iribarren'', Float64 [Fin e])]) \<and>
              0.35341 < e \<and> e < 0.35343 \<and>
              beach_type [Fin e] 0 = [''dissipative''] \<and>
              runup_ratio (scenario @ [(''iribarren'', Float64 [Fin e])]) (ids1 [Fin e]) =
                Inr [lit 0.6]"
    by (rule scenario_frame)
qed

text \<open>
  The period, the wave height and the slope of the scenario, the slope as the float64
  that \<open>0.05\<close> is read as.
\<close>

theorem iribarrenNb_formula_witness:
  "\<exists>l e. Lp (Fin 8) = Fin l \<and>
         \<bar>l - 9.81 * 8\<^sup>2 / (2 * pi)\<bar> \<le> 9.81 * 8\<^sup>2 / (2 * pi) / 10 ^ 9 \<and>
         iribarrenNb (Fin 8) (Fin 2) (Fin (3602879701896397 / 2 ^ 56)) = Fin e \<and>
         \<bar>e - 3602879701896397 / 2 ^ 56 / sqrt (2 / (9.81 * 8\<^sup>2 / (2 * pi)))\<bar> \<le>
           3602879701896397 / 2 ^ 56 / sqrt (2 / (9.81 * 8\<^sup>2 / (2 * pi))) / 10 ^ 9"
proof -
  have T: "2 powi (- 250) \<le> (8::real)" "(8::real) \<le> 2 ^ 250" by (rule in_box; simp)+
  have H: "2 powi (- 500) \<le> (2::real)" "(2::real) \<le> 2 ^ 500" by (rule in_box; simp)+
  have b: "2 powi (- 500) \<le> (3602879701896397 / 2 ^ 56 :: real)"
    "(3602879701896397 / 2 ^ 56 :: real) \<le> 2 ^ 500" by (rule in_box; simp)+
  show ?thesis by (rule conjunct1[OF iribarrenNb_formula[OF T H b]])
qed

text \<open>
  The scenario's stored value is below 0.35343, more than \<open>1.7 * 10\<^sup>-\<^sup>4\<close> under the
  figure 0.3536. And the period \<open>2\<^sup>6\<^sup>0\<^sup>0\<close>, a float64 above zero, with the scenario's
  wave height: the square of the period overflows, the wavelength is infinite, and the
  result is infinite for the slope 0.05 and NaN for the slope 0, where
  \<open>b / sqrt (H / (9.81 * T\<^sup>2 / (2 * pi)))\<close> is a finite number.
\<close>

theorem scenario_not_03536:
  "(\<exists>e. append_iribarren scenario = Inr (scenario @ [(''iribarren'', Float64 [Fin e])]) \<and>
        e < 0.35343 \<and> 17 / 10 ^ 5 < 0.3536 - e) \<and>
   round64 (2 ^ 600) = Fin (2 ^ 600) \<and>
   Lp (Fin (2 ^ 600)) = PInf \<and>
   iribarrenNb (Fin (2 ^ 600)) (lit 2.0) (lit 0.05) = PInf \<and>
   iribarrenNb (Fin (2 ^ 600)) (lit 2.0) (Fin 0) = NaN"
proof -
  from scenario_frame obtain e where
    e: "append_iribarren scenario = Inr (scenario @ [(''iribarren'', Float64 [Fin e])])"
      "e < 0.35343" by blast
  from e(2) have "17 / 10 ^ 5 < 0.3536 - e" by simp
  with e have "\<exists>e. append_iribarren scenario = Inr (scenario @ [(''iribarren'', Float64 [Fin e])]) \<and>
        e < 0.35343 \<and> 17 / 10 ^ 5 < 0.3536 - e" by blast
  then show ?thesis
    using float_2_600 Lp_overflow iribarrenNb_overflow by (intro conjI)
qed

text \<open>
  C2. For every period \<open>T\<close> between \<open>2\<^sup>-\<^sup>5\<^sup>0\<^sup>0\<close> and \<open>2\<^sup>5\<^sup>0\<^sup>0\<close> the wavelength
  computed by the first line of \<open>iribarrenNb\<close>, in float64 arithmetic with the
  float64 values of \<open>9.81\<close> and of pi, is a finite number within a relative error of
  \<open>10\<^sup>-\<^sup>9\<close> of \<open>9.81 * T\<^sup>2 / (2 * pi)\<close>.
\<close>

theorem Lp_formula:
  assumes "2 powi (- 500) \<le> T" "T \<le> 2 ^ 500"
  shows "\<exists>l. Lp (Fin T) = Fin l \<and>
             \<bar>l - 9.81 * T\<^sup>2 / (2 * pi)\<bar> \<le> (9.81 * T\<^sup>2 / (2 * pi)) / 10 ^ 9"
proof -
  define X where "X = 9.81 * T\<^sup>2 / (2 * pi)"
  have "0 < T" using square_range(3)[OF assms] .
  then have Xpos: "0 < X" by (simp add: X_def)
  from Lp_chain[OF assms] obtain l where l: "Lp (Fin T) = Fin l"
    "rel_bounds (1 - 5 / 10 ^ 10) (1 + 5 / 10 ^ 10) X l" unfolding X_def by blast
  have "rel_bounds (1 - 1 / 10 ^ 9) (1 + 1 / 10 ^ 9) X l"
    using l(2) by (rule rel_bounds_weaken) (use Xpos in simp_all)
  then have "\<bar>l - X\<bar> \<le> X / 10 ^ 9"
    using rel_bounds_abs[of "1 / 10 ^ 9" X l] by simp
  with l(1) show ?thesis unfolding X_def by blast
qed

text \<open>The period of the end-to-end scenario.\<close>

theorem Lp_formula_witness:
  "\<exists>l. Lp (Fin 8) = Fin l \<and> \<bar>l - 9.81 * 8\<^sup>2 / (2 * pi)\<bar> \<le> (9.81 * 8\<^sup>2 / (2 * pi)) / 10 ^ 9"
proof -
  have T: "2 powi (- 500) \<le> (8::real)" "(8::real) \<le> 2 ^ 500" by (rule in_box; simp)+
  show ?thesis by (rule Lp_formula[OF T])
qed

text \<open>
  The periods \<open>2\<^sup>6\<^sup>0\<^sup>0\<close> and \<open>2\<^sup>-\<^sup>6\<^sup>0\<^sup>0\<close> are float64 numbers above zero. The square of
  the first overflows and the wavelength is infinite; the square of the second
  underflows and the wavelength is 0.
\<close>

theorem wavelength_out_of_range:
  "round64 (2 ^ 600) = Fin (2 ^ 600) \<and> Lp (Fin (2 ^ 600)) = PInf \<and>
   round64 (2 powi (- 600)) = Fin (2 powi (- 600)) \<and> (0::real) < 2 powi (- 600) \<and>
   Lp (Fin (2 powi (- 600))) = Fin 0"
  using float_2_600 Lp_overflow float_2_m600 Lp_underflow by simp

text \<open>
  C3. A row with a finite Iribarren number \<open>x\<close> is plotted under exactly one
  beach type, fixed by the breakpoints: dissipative for \<open>x < 0.5\<close>, intermediate for
  \<open>0.5 \<le> x < 1.5\<close>, reflective for \<open>x \<ge> 1.5\<close>. So 0.5 itself is intermediate and 1.5
  itself is reflective. (The float64 \<open>-0.0\<close> counts as the number 0.)
\<close>

theorem beach_type_breakpoints:
  assumes "i < length ir" "ir ! i = Fin x \<or> ir ! i = NZero \<and> x = 0"
  shows "beach_type ir i =
           (if x < 0.5 then [''dissipative'']
            else if x < 1.5 then [''intermediate'']
            else [''reflective''])"
  using assms beach_type_Fin[of i ir x] beach_type_special(1)[of i ir] by auto

text \<open>The four values on both sides of the two breakpoints.\<close>

theorem beach_type_breakpoints_witness:
  "beach_type [Fin 0.4999, Fin 0.5, Fin 1.4999, Fin 1.5] 0 = [''dissipative''] \<and>
   beach_type [Fin 0.4999, Fin 0.5, Fin 1.4999, Fin 1.5] 1 = [''intermediate''] \<and>
   beach_type [Fin 0.4999, Fin 0.5, Fin 1.4999, Fin 1.5] 2 = [''intermediate''] \<and>
   beach_type [Fin 0.4999, Fin 0.5, Fin 1.4999, Fin 1.5] 3 = [''reflective'']"
  using beach_type_breakpoints[of 0 "[Fin 0.4999, Fin 0.5, Fin 1.4999, Fin 1.5]" "0.4999"]
    beach_type_breakpoints[of 1 "[Fin 0.4999, Fin 0.5, Fin 1.4999, Fin 1.5]" "0.5"]
    beach_type_breakpoints[of 2 "[Fin 0.4999, Fin 0.5, Fin 1.4999, Fin 1.5]" "1.4999"]
    beach_type_breakpoints[of 3 "[Fin 0.4999, Fin 0.5, Fin 1.4999, Fin 1.5]" "1.5"]
  by simp




text \<open>
  C5, as the notebook has it. When the cell succeeds on a frame that has no column
  \<open>iribarren\<close> yet, the result is the input frame with exactly one column appended,
  \<open>iribarren\<close>: the columns before it are the input's, unchanged and in their order.
  Running the cell again on the result changes nothing.
\<close>

theorem one_column_appended:
  assumes "append_iribarren df = Inr df'" and "''iribarren'' \<notin> set (map fst df)"
  shows "(\<exists>ir. df' = df @ [(''iribarren'', Float64 ir)]) \<and>
         map fst df' = map fst df @ [''iribarren''] \<and>
         take (length df) df' = df \<and>
         append_iribarren df' = Inr df'"
proof -
  from append_iribarren_InrD[OF assms(1)] obtain ir
    where ir: "df' = setitem df ''iribarren'' (Float64 ir)" by blast
  then have df': "df' = df @ [(''iribarren'', Float64 ir)]"
    using assms(2) by (simp add: setitem_fresh)
  have same: "getcol df' k = getcol df k" if "k \<noteq> ''iribarren''" for k
    unfolding ir using that by (rule getcol_setitem_other)
  have "append_iribarren df' = Inr df'"
  proof -
    from assms(1) obtain tp hs beta Tp Hs B where
      g: "getcol df ''tp'' = Inr tp" "getcol df ''hs'' = Inr hs" "getcol df ''beta'' = Inr beta"
        "as_float tp = Inr Tp" "as_float hs = Inr Hs" "as_float beta = Inr B"
        "df' = setitem df ''iribarren'' (Float64 (iribarrenNb_series Tp Hs B))"
      by (auto simp: append_iribarren_def split: sum.splits)
    have "append_iribarren df' =
            Inr (setitem df' ''iribarren'' (Float64 (iribarrenNb_series Tp Hs B)))"
      using g(1-6) by (simp add: append_iribarren_def same)
    also have "setitem df' ''iribarren'' (Float64 (iribarrenNb_series Tp Hs B)) = df'"
      unfolding g(7) by (rule setitem_twice)
    finally show ?thesis .
  qed
  with df' show ?thesis by simp
qed

text \<open>The scenario's frame, with the ten columns of \<open>names\<close>.\<close>

theorem one_column_appended_witness:
  "map fst (scenario @
      [(''iribarren'', Float64 [iribarrenNb (lit 8.0) (lit 2.0) (lit 0.05)])]) =
     names @ [''iribarren''] \<and>
   take 10 (scenario @
      [(''iribarren'', Float64 [iribarrenNb (lit 8.0) (lit 2.0) (lit 0.05)])]) =
     scenario"
proof -
  let ?df' = "scenario @ [(''iribarren'', Float64 [iribarrenNb (lit 8.0) (lit 2.0) (lit 0.05)])]"
  have a: "append_iribarren scenario = Inr ?df'"
    by (simp add: scenario_def append_iribarren_runup_frame iribarrenNb_series_def)
  have f: "''iribarren'' \<notin> set (map fst scenario)"
    by (simp add: scenario_def names_runup_frame names_def)
  have n: "map fst scenario = names" by (simp add: scenario_def names_runup_frame)
  have l: "length scenario = 10" by (simp add: scenario_def runup_frame_def)
  from one_column_appended[OF a f] show ?thesis by (simp add: n l)
qed

text \<open>
  On the scenario's frame the result has eleven columns, the ten of \<open>names\<close> and
  \<open>iribarren\<close>; there is no column \<open>beach_type\<close> and no column
  \<open>normalized_runup\<close>.
\<close>

theorem only_iribarren_appended:
  "\<exists>df'. append_iribarren scenario = Inr df' \<and>
         map fst df' = names @ [''iribarren''] \<and> length df' = 11 \<and>
         ''beach_type'' \<notin> set (map fst df') \<and> ''normalized_runup'' \<notin> set (map fst df')"
proof -
  let ?df' = "scenario @ [(''iribarren'', Float64 [iribarrenNb (lit 8.0) (lit 2.0) (lit 0.05)])]"
  have a: "append_iribarren scenario = Inr ?df'"
    by (simp add: scenario_def append_iribarren_runup_frame iribarrenNb_series_def)
  have n: "map fst scenario = names" by (simp add: scenario_def names_runup_frame)
  have "map fst ?df' = names @ [''iribarren'']" using n by simp
  moreover have "length ?df' = 11" by (simp add: scenario_def runup_frame_def)
  moreover have "''beach_type'' \<notin> set (map fst ?df')" "''normalized_runup'' \<notin> set (map fst ?df')"
    by (simp_all add: n names_def)
  ultimately show ?thesis using a by blast
qed

text \<open>
  C6, as the notebook has it. \<open>iribarrenNb\<close> checks nothing. On float64 columns the
  cell returns a float64 column, computed row by row, for every value of the period and
  of the wave height, above zero or not; the values may be NaN or infinite. The cell
  can fail only with AttributeError (a column is missing) or with TypeError (a column is
  text), never because of the value of a period or of a wave height.
\<close>

theorem iribarrenNb_unchecked:
  assumes "getcol df ''tp'' = Inr (Float64 Tp)" "getcol df ''hs'' = Inr (Float64 Hs)"
    "getcol df ''beta'' = Inr (Float64 B)"
  shows "append_iribarren df =
           Inr (setitem df ''iribarren'' (Float64 (iribarrenNb_series Tp Hs B))) \<and>
         (\<forall>df' e. append_iribarren df' = Inl e \<longrightarrow> e = AttributeError \<or> e = TypeError)"
  using append_iribarren_float[OF assms] append_iribarren_errors by blast

text \<open>
  Three rows: the scenario's period and wave height, both zero, and both negative.
\<close>

theorem iribarrenNb_unchecked_witness:
  "append_iribarren (runup_frame [Fin 2, Fin 0, Fin (- 2)] [Fin 8, Fin 0, Fin (- 8)]
                       [lit 0.05, lit 0.05, lit 0.05] [lit 1.2, lit 1.2, lit 1.2]) =
     Inr (setitem (runup_frame [Fin 2, Fin 0, Fin (- 2)] [Fin 8, Fin 0, Fin (- 8)]
                     [lit 0.05, lit 0.05, lit 0.05] [lit 1.2, lit 1.2, lit 1.2])
            ''iribarren''
            (Float64 (iribarrenNb_series [Fin 8, Fin 0, Fin (- 8)] [Fin 2, Fin 0, Fin (- 2)]
                        [lit 0.05, lit 0.05, lit 0.05])))"
  by (rule conjunct1[OF iribarrenNb_unchecked[OF getcol_runup_frame(2,1,3)]])

text \<open>
  A row with the period \<open>-8\<close> and a row with the wave height \<open>-2\<close>, neither above
  zero: the call returns a column, with the value of period 8 for the first row and NaN
  for the second.
\<close>

theorem nonpositive_input_no_error:
  "\<not> fless (Fin 0) (Fin (- 8)) \<and> \<not> fless (Fin 0) (Fin (- 2)) \<and>
   append_iribarren (runup_frame [Fin 2, Fin (- 2)] [Fin (- 8), Fin 8] [lit 0.05, lit 0.05]
                       [lit 1.2, lit 1.2]) =
     Inr (runup_frame [Fin 2, Fin (- 2)] [Fin (- 8), Fin 8] [lit 0.05, lit 0.05]
            [lit 1.2, lit 1.2] @
          [(''iribarren'', Float64 [iribarrenNb (Fin 8) (Fin 2) (lit 0.05), NaN])])"
proof -
  have m: "iribarrenNb (Fin (- 8)) (Fin 2) (lit 0.05) = iribarrenNb (Fin 8) (Fin 2) (lit 0.05)"
    by (rule iribarrenNb_neg_period)
  have "append_iribarren (runup_frame [Fin 2, Fin (- 2)] [Fin (- 8), Fin 8] [lit 0.05, lit 0.05]
                       [lit 1.2, lit 1.2]) =
     Inr (runup_frame [Fin 2, Fin (- 2)] [Fin (- 8), Fin 8] [lit 0.05, lit 0.05]
            [lit 1.2, lit 1.2] @
          [(''iribarren'', Float64 [iribarrenNb (Fin 8) (Fin 2) (lit 0.05), NaN])])"
    using iribarrenNb_neg2[of "lit 0.05"] m
    by (simp add: append_iribarren_runup_frame iribarrenNb_series_def)
  then show ?thesis by simp
qed

text \<open>
  C7, as the notebook has it. The run-up ratio of the selected rows is the float64
  quotient \<open>r2 / hs\<close>, row by row, and nothing is raised for any value. When the exact
  quotient of two finite values is in the range of the normal float64 numbers, the ratio
  is a finite number within a relative error of \<open>2\<^sup>-\<^sup>5\<^sup>3\<close> of it. When \<open>hs\<close> is zero
  (\<open>0.0\<close> or \<open>-0.0\<close>), the ratio is an infinity or NaN.
\<close>

theorem runup_ratio_unchecked:
  assumes "getcol df ''r2'' = Inr (Float64 R)" "getcol df ''hs'' = Inr (Float64 Hs)"
    and "\<forall>i\<in>set ids. i < length R \<and> i < length Hs"
  shows "runup_ratio df ids = Inr (map (\<lambda>i. fdiv (R ! i) (Hs ! i)) ids) \<and>
         (\<forall>r h. 2 powi (- 1022) \<le> \<bar>r / h\<bar> \<and> \<bar>r / h\<bar> \<le> 2 ^ 1023 \<longrightarrow>
            (\<exists>q. fdiv (Fin r) (Fin h) = Fin q \<and> \<bar>q - r / h\<bar> \<le> \<bar>r / h\<bar> / 2 ^ 53)) \<and>
         (\<forall>r h. is_zero h \<longrightarrow> is_inf (fdiv r h) \<or> fdiv r h = NaN)"
proof (intro conjI allI impI)
  show "runup_ratio df ids = Inr (map (\<lambda>i. fdiv (R ! i) (Hs ! i)) ids)"
    by (rule runup_ratio_float[OF assms])
next
  fix r h :: real
  assume a: "2 powi (- 1022) \<le> \<bar>r / h\<bar> \<and> \<bar>r / h\<bar> \<le> 2 ^ 1023"
  have "(0::real) < 2 powi (- 1022)" by simp
  with a have "0 < \<bar>r / h\<bar>" by linarith
  then have n: "r \<noteq> 0" "h \<noteq> 0" by auto
  from a have lo: "2 powi (- 1022) \<le> \<bar>r / h\<bar>" and hi: "\<bar>r / h\<bar> \<le> 2 ^ 1023" by blast+
  from round64_normal[OF lo hi] obtain q where
    "round64 (r / h) = Fin q" "\<bar>q - r / h\<bar> \<le> \<bar>r / h\<bar> / 2 ^ 53" by blast
  then show "\<exists>q. fdiv (Fin r) (Fin h) = Fin q \<and> \<bar>q - r / h\<bar> \<le> \<bar>r / h\<bar> / 2 ^ 53"
    using fdiv_Fin[OF n] by simp
next
  fix r h
  assume "is_zero h"
  then show "is_inf (fdiv r h) \<or> fdiv r h = NaN"
    by (cases r; cases h) (simp_all add: fdiv_def signed_inf_def)
qed

text \<open>The scenario's row: \<open>1.2 / 2.0\<close> is the float64 \<open>0.6\<close>.\<close>

theorem runup_ratio_unchecked_witness:
  "runup_ratio scenario [0] = Inr [lit 0.6]"
proof -
  have "runup_ratio scenario [0] =
          Inr (map (\<lambda>i. fdiv ([lit 1.2] ! i) ([lit 2.0] ! i)) [0])"
    unfolding scenario_def
    by (rule conjunct1[OF runup_ratio_unchecked[OF getcol_runup_frame(4,1)]]) simp
  then show ?thesis using scenario_ratio by simp
qed

text \<open>
  Three rows with \<open>hs\<close> zero: \<open>r2 = 1.2\<close> over \<open>0.0\<close>, \<open>r2 = 1.2\<close> over \<open>-0.0\<close>
  and \<open>r2 = 0\<close> over \<open>0.0\<close>. The ratio is returned, as plus infinity, minus infinity
  and NaN.
\<close>

theorem zero_height_no_error:
  "runup_ratio (runup_frame [Fin 0, NZero, Fin 0] [Fin 8, Fin 8, Fin 8]
                  [lit 0.05, lit 0.05, lit 0.05] [lit 1.2, lit 1.2, Fin 0])
     [0, 1, 2] = Inr [PInf, NInf, NaN]"
proof -
  have "runup_ratio (runup_frame [Fin 0, NZero, Fin 0] [Fin 8, Fin 8, Fin 8]
                  [lit 0.05, lit 0.05, lit 0.05] [lit 1.2, lit 1.2, Fin 0])
     [0, 1, 2] =
     Inr (map (\<lambda>i. fdiv ([lit 1.2, lit 1.2, Fin 0] ! i) ([Fin 0, NZero, Fin 0] ! i)) [0, 1, 2])"
    by (rule runup_ratio_float[OF getcol_runup_frame(4,1)]) simp
  then show ?thesis by (simp add: lit_12_n fdiv_def signed_inf_def)
qed

text \<open>
  C8. For a period between \<open>2\<^sup>-\<^sup>2\<^sup>5\<^sup>0\<close> and \<open>2\<^sup>2\<^sup>5\<^sup>0\<close>, a float64 wave height between
  \<open>2\<^sup>-\<^sup>5\<^sup>0\<^sup>0\<close> and \<open>2\<^sup>5\<^sup>0\<^sup>0\<close> and a float64 slope that is 0 or between \<open>2\<^sup>-\<^sup>5\<^sup>0\<^sup>0\<close> and
  \<open>2\<^sup>5\<^sup>0\<^sup>0\<close>, doubling the slope doubles the Iribarren number, and quadrupling the wave
  height halves it, the period held fixed; both equalities are exact in float64
  arithmetic.
\<close>

theorem iribarrenNb_scaling:
  assumes "2 powi (- 250) \<le> T" "T \<le> 2 ^ 250"
    and "2 powi (- 500) \<le> H" "H \<le> 2 ^ 500" "round64 H = Fin H"
    and "b = 0 \<or> 2 powi (- 500) \<le> b" "b \<le> 2 ^ 500" "round64 b = Fin b"
  shows "iribarrenNb (Fin T) (Fin H) (fmul (Fin 2) (Fin b)) =
           fmul (Fin 2) (iribarrenNb (Fin T) (Fin H) (Fin b)) \<and>
         iribarrenNb (Fin T) (fmul (Fin 4) (Fin H)) (Fin b) =
           fdiv (iribarrenNb (Fin T) (Fin H) (Fin b)) (Fin 2)"
proof (cases "b = 0")
  case True
  show ?thesis
    unfolding True using iribarrenNb_zero_slope_scaling[OF assms(1-5)] by (rule conjI)
next
  case False
  with assms(6) have lo: "2 powi (- 500) \<le> b" by blast
  show ?thesis
    using iribarrenNb_double_slope[OF assms(1-4) lo assms(7,8)]
      iribarrenNb_quadruple_height[OF assms(1-5) lo assms(7)]
    by (rule conjI)
qed

text \<open>The period, the wave height and the slope of the end-to-end scenario.\<close>

theorem iribarrenNb_scaling_witness:
  "iribarrenNb (Fin 8) (Fin 2) (fmul (Fin 2) (lit 0.05)) =
     fmul (Fin 2) (iribarrenNb (Fin 8) (Fin 2) (lit 0.05)) \<and>
   iribarrenNb (Fin 8) (fmul (Fin 4) (Fin 2)) (lit 0.05) =
     fdiv (iribarrenNb (Fin 8) (Fin 2) (lit 0.05)) (Fin 2)"
proof -
  have T: "2 powi (- 250) \<le> (8::real)" "(8::real) \<le> 2 ^ 250" by (rule in_box; simp)+
  have H: "2 powi (- 500) \<le> (2::real)" "(2::real) \<le> 2 ^ 500" by (rule in_box; simp)+
  have b: "2 powi (- 500) \<le> (3602879701896397 / 2 ^ 56 :: real)"
    "(3602879701896397 / 2 ^ 56 :: real) \<le> 2 ^ 500" by (rule in_box; simp)+
  show ?thesis
    unfolding lit_005
    by (rule iribarrenNb_scaling[OF T H float_2 disjI2[OF b(1)] b(2) float_005])
qed

text \<open>
  The scenario's period and slope with the wave height \<open>2\<^sup>1\<^sup>0\<^sup>2\<^sup>3\<close>, a float64 above
  zero: four times the wave height overflows to infinity, and the Iribarren number of
  the quadrupled height is 0, while half the Iribarren number of the height itself is a
  number above zero.
\<close>

theorem quadruple_height_overflow:
  "round64 (2 ^ 1023) = Fin (2 ^ 1023) \<and>
   fmul (Fin 4) (Fin (2 ^ 1023)) = PInf \<and>
   iribarrenNb (Fin 8) (fmul (Fin 4) (Fin (2 ^ 1023))) (lit 0.05) = Fin 0 \<and>
   (\<exists>r y. iribarrenNb (Fin 8) (Fin (2 ^ 1023)) (lit 0.05) = Fin r \<and>
          fdiv (Fin r) (Fin 2) = Fin y \<and> 0 < y)"
proof -
  have "fmul (Fin 4) (Fin (2 ^ 1023)) = round64 (4 * 2 ^ 1023)" by (rule fmul_Fin) simp
  then have h: "fmul (Fin 4) (Fin (2 ^ 1023)) = PInf" by (simp only: round64_2_1025)
  from float_2_1023 h quadruple_overflow huge_height show ?thesis by (intro conjI)
qed

text \<open>
  C9. The second argument of each correlation is the wave-anomaly column cut to the
  number of rows of the climate-index frame, so its length is the shorter of the two
  lengths. When the call returns, the statistic is computed on the anomalies paired by
  position; the result depends on the two anomaly columns only, never on the \<open>year\<close>
  and \<open>month\<close> of the rows. (When the wave frame is the shorter one, or the index frame
  has fewer than two rows, \<open>pearsonr\<close> raises ValueError.)
\<close>

theorem correlate_by_position:
  "length (wave_slice index_df wave_df) = min (length index_df) (length wave_df) \<and>
   correlate stat index_df wave_df =
     (if length index_df \<le> length wave_df \<and> 2 \<le> length index_df
      then Inr (stat (zip (map anomaly index_df) (map anomaly wave_df)))
      else Inl ValueError) \<and>
   (map anomaly index_df' = map anomaly index_df \<and> map anomaly wave_df' = map anomaly wave_df
      \<longrightarrow> correlate stat index_df' wave_df' = correlate stat index_df wave_df)"
proof (intro conjI impI)
  show "length (wave_slice index_df wave_df) = min (length index_df) (length wave_df)"
    by (simp add: wave_slice_def min.commute)
  have z: "zip (map anomaly index_df) (take (length index_df) (map anomaly wave_df)) =
           zip (map anomaly index_df) (map anomaly wave_df)"
    using zip_take_length[of "map anomaly index_df" "map anomaly wave_df"] by simp
  show "correlate stat index_df wave_df =
     (if length index_df \<le> length wave_df \<and> 2 \<le> length index_df
      then Inr (stat (zip (map anomaly index_df) (map anomaly wave_df)))
      else Inl ValueError)"
    using z by (auto simp: correlate_def pearsonr_def wave_slice_def)
next
  assume a: "map anomaly index_df' = map anomaly index_df \<and>
             map anomaly wave_df' = map anomaly wave_df"
  then have "length index_df' = length index_df" by (metis length_map)
  then show "correlate stat index_df' wave_df' = correlate stat index_df wave_df"
    using a by (simp add: correlate_def wave_slice_def)
qed

text \<open>
  A two-month index frame against a wave frame that starts two months earlier, against
  one that starts in the same month, and a three-month index frame against a two-month
  wave frame.
\<close>

theorem correlate_by_position_witness:
  "correlate (\<lambda>ps. ps)
     [\<lparr>year = 2000, month = 1, anomaly = Fin 1\<rparr>, \<lparr>year = 2000, month = 2, anomaly = Fin 2\<rparr>]
     [\<lparr>year = 1999, month = 11, anomaly = Fin 10\<rparr>, \<lparr>year = 1999, month = 12, anomaly = Fin 20\<rparr>,
      \<lparr>year = 2000, month = 1, anomaly = Fin 30\<rparr>] =
     Inr [(Fin 1, Fin 10), (Fin 2, Fin 20)] \<and>
   correlate (\<lambda>ps. ps)
     [\<lparr>year = 2000, month = 1, anomaly = Fin 1\<rparr>, \<lparr>year = 2000, month = 2, anomaly = Fin 2\<rparr>]
     [\<lparr>year = 2000, month = 1, anomaly = Fin 10\<rparr>, \<lparr>year = 2000, month = 2, anomaly = Fin 20\<rparr>,
      \<lparr>year = 2000, month = 3, anomaly = Fin 30\<rparr>] =
     Inr [(Fin 1, Fin 10), (Fin 2, Fin 20)] \<and>
   correlate (\<lambda>ps. ps)
     [\<lparr>year = 2000, month = 1, anomaly = Fin 1\<rparr>, \<lparr>year = 2000, month = 2, anomaly = Fin 2\<rparr>,
      \<lparr>year = 2000, month = 3, anomaly = Fin 3\<rparr>]
     [\<lparr>year = 2000, month = 1, anomaly = Fin 10\<rparr>, \<lparr>year = 2000, month = 2, anomaly = Fin 20\<rparr>] =
     Inl ValueError"
proof -
  let ?idx = "[\<lparr>year = 2000, month = 1, anomaly = Fin 1\<rparr>,
               \<lparr>year = 2000, month = 2, anomaly = Fin 2\<rparr>]"
  let ?late = "[\<lparr>year = 1999, month = 11, anomaly = Fin 10\<rparr>,
                \<lparr>year = 1999, month = 12, anomaly = Fin 20\<rparr>,
                \<lparr>year = 2000, month = 1, anomaly = Fin 30\<rparr>]"
  let ?same = "[\<lparr>year = 2000, month = 1, anomaly = Fin 10\<rparr>,
                \<lparr>year = 2000, month = 2, anomaly = Fin 20\<rparr>,
                \<lparr>year = 2000, month = 3, anomaly = Fin 30\<rparr>]"
  have 1: "correlate (\<lambda>ps. ps) ?idx ?late = Inr [(Fin 1, Fin 10), (Fin 2, Fin 20)]"
    using correlate_by_position[of ?idx ?late "\<lambda>ps. ps"] by simp
  have "correlate (\<lambda>ps. ps) ?idx ?same = correlate (\<lambda>ps. ps) ?idx ?late"
    using correlate_by_position[of ?idx ?late "\<lambda>ps. ps" ?idx ?same] by simp
  with 1 have 2: "correlate (\<lambda>ps. ps) ?idx ?same = Inr [(Fin 1, Fin 10), (Fin 2, Fin 20)]"
    by simp
  have 3: "correlate (\<lambda>ps. ps)
     [\<lparr>year = 2000, month = 1, anomaly = Fin 1\<rparr>, \<lparr>year = 2000, month = 2, anomaly = Fin 2\<rparr>,
      \<lparr>year = 2000, month = 3, anomaly = Fin 3\<rparr>]
     [\<lparr>year = 2000, month = 1, anomaly = Fin 10\<rparr>, \<lparr>year = 2000, month = 2, anomaly = Fin 20\<rparr>] =
     Inl ValueError"
    using correlate_by_position[of
        "[\<lparr>year = 2000, month = 1, anomaly = Fin 1\<rparr>, \<lparr>year = 2000, month = 2, anomaly = Fin 2\<rparr>,
          \<lparr>year = 2000, month = 3, anomaly = Fin 3\<rparr>]"
        "[\<lparr>year = 2000, month = 1, anomaly = Fin 10\<rparr>, \<lparr>year = 2000, month = 2, anomaly = Fin 20\<rparr>]"
        "\<lambda>ps. ps"]
    by simp
  from 1 2 3 show ?thesis by blast
qed

text \<open>
  C10. The three index sets are pairwise disjoint, and their union is the set of the
  rows whose Iribarren number is not NaN. A row whose Iribarren number is NaN is plotted
  under no beach type. A negative wave height gives such a row, and nothing is raised,
  when no operation overflows or underflows: for a period of magnitude between
  \<open>2\<^sup>-\<^sup>2\<^sup>5\<^sup>0\<close> and \<open>2\<^sup>2\<^sup>5\<^sup>0\<close> and a wave height between \<open>-2\<^sup>5\<^sup>0\<^sup>0\<close> and \<open>-2\<^sup>-\<^sup>5\<^sup>0\<^sup>0\<close>.
\<close>

theorem beach_classes_partition:
  "set (ids1 ir) \<inter> set (ids2 ir) = {} \<and>
   set (ids1 ir) \<inter> set (ids3 ir) = {} \<and>
   set (ids2 ir) \<inter> set (ids3 ir) = {} \<and>
   set (ids1 ir) \<union> set (ids2 ir) \<union> set (ids3 ir) = {i. i < length ir \<and> ir ! i \<noteq> NaN} \<and>
   (\<forall>i. i < length ir \<and> ir ! i = NaN \<longrightarrow> beach_type ir i = []) \<and>
   (\<forall>T H b. 2 powi (- 250) \<le> \<bar>T\<bar> \<and> \<bar>T\<bar> \<le> 2 ^ 250 \<and>
            2 powi (- 500) \<le> - H \<and> - H \<le> 2 ^ 500 \<longrightarrow>
      iribarrenNb (Fin T) (Fin H) b = NaN)"
proof (intro conjI allI impI)
  show "set (ids1 ir) \<inter> set (ids2 ir) = {}"
    by (auto simp: set_ids1 set_ids2 fge_Fin_iff)
  show "set (ids1 ir) \<inter> set (ids3 ir) = {}"
    using fless_Fin_mono[of _ "0.5" "1.5"]
    by (auto simp: set_ids1 set_ids3 fge_Fin_iff)
  show "set (ids2 ir) \<inter> set (ids3 ir) = {}"
    by (auto simp: set_ids2 set_ids3 fge_Fin_iff)
  show "set (ids1 ir) \<union> set (ids2 ir) \<union> set (ids3 ir) = {i. i < length ir \<and> ir ! i \<noteq> NaN}"
    by (auto simp: set_ids1 set_ids2 set_ids3 fge_Fin_iff)
  show "beach_type ir i = []" if "i < length ir \<and> ir ! i = NaN" for i
    using that by (simp add: beach_type_def beach_groups_def set_ids1 set_ids2 set_ids3)
  show "iribarrenNb (Fin T) (Fin H) b = NaN"
    if "2 powi (- 250) \<le> \<bar>T\<bar> \<and> \<bar>T\<bar> \<le> 2 ^ 250 \<and> 2 powi (- 500) \<le> - H \<and> - H \<le> 2 ^ 500"
    for T H b
    using that by (intro iribarrenNb_neg_height) blast+
qed

text \<open>Two rows, the second with the wave height \<open>-2\<close>.\<close>

theorem beach_classes_partition_witness:
  "append_iribarren (runup_frame [Fin 2, Fin (- 2)] [Fin 8, Fin 8] [lit 0.05, lit 0.05]
                      [lit 1.2, lit 1.2]) =
     Inr (runup_frame [Fin 2, Fin (- 2)] [Fin 8, Fin 8] [lit 0.05, lit 0.05]
            [lit 1.2, lit 1.2] @
          [(''iribarren'', Float64 [iribarrenNb (Fin 8) (Fin 2) (lit 0.05), NaN])]) \<and>
   set (ids1 [iribarrenNb (Fin 8) (Fin 2) (lit 0.05), NaN]) \<union>
   set (ids2 [iribarrenNb (Fin 8) (Fin 2) (lit 0.05), NaN]) \<union>
   set (ids3 [iribarrenNb (Fin 8) (Fin 2) (lit 0.05), NaN]) = {0} \<and>
   beach_type [iribarrenNb (Fin 8) (Fin 2) (lit 0.05), NaN] 1 = []"
proof -
  let ?ir = "[iribarrenNb (Fin 8) (Fin 2) (lit 0.05), NaN]"
  note p = beach_classes_partition[of ?ir]
  have box: "2 powi (- 250) \<le> \<bar>8::real\<bar> \<and> \<bar>8::real\<bar> \<le> 2 ^ 250 \<and>
             2 powi (- 500) \<le> - (- 2::real) \<and> - (- 2::real) \<le> 2 ^ 500"
    using in_box(1,2)[of 8] in_box(3,4)[of 2] by simp
  from p have "\<forall>T H b. 2 powi (- 250) \<le> \<bar>T\<bar> \<and> \<bar>T\<bar> \<le> 2 ^ 250 \<and>
            2 powi (- 500) \<le> - H \<and> - H \<le> 2 ^ 500 \<longrightarrow>
      iribarrenNb (Fin T) (Fin H) b = NaN" by blast
  with box have n: "iribarrenNb (Fin 8) (Fin (- 2)) (lit 0.05) = NaN" by blast
  have a: "append_iribarren (runup_frame [Fin 2, Fin (- 2)] [Fin 8, Fin 8] [lit 0.05, lit 0.05]
                      [lit 1.2, lit 1.2]) =
     Inr (runup_frame [Fin 2, Fin (- 2)] [Fin 8, Fin 8] [lit 0.05, lit 0.05]
            [lit 1.2, lit 1.2] @
          [(''iribarren'', Float64 ?ir)])"
    using n by (simp add: append_iribarren_runup_frame iribarrenNb_series_def)
  from scenario_value obtain e where e: "iribarrenNb (Fin 8) (Fin 2) (lit 0.05) = Fin e"
    using lit_8 lit_2 by auto
  have "{i. i < length ?ir \<and> ?ir ! i \<noteq> NaN} = {0}"
    using e by (auto simp: less_Suc_eq)
  with p have u: "set (ids1 ?ir) \<union> set (ids2 ?ir) \<union> set (ids3 ?ir) = {0}" by simp
  from p have b: "beach_type ?ir 1 = []" by simp
  from a u b show ?thesis by simp
qed

end
